theory Spec2Isabelle
  imports Main "HOL-Library.Sublist" "HOL-Library.Char_ord" "HOL-Library.List_Lexorder"
begin

section \<open>JavaScript strings\<close>

text \<open>
  Paths and file names are character lists. The strings that the scheduler and the
  Discord channel slice, trim and lower-case are lists of UTF-16 code units (natural
  numbers), so that \<open>length\<close> and \<open>slice(0, n)\<close> (here \<open>take n\<close>) count what
  JavaScript counts; \<open>ascii\<close> embeds a literal of the sources. \<open>trim\<close> and
  \<open>trimStart\<close> remove the code units of ECMAScript's WhiteSpace and LineTerminator.
  \<open>String.prototype.toLowerCase\<close> comes from the runtime: the functions that call it
  take it as the parameter \<open>lower\<close>, which may be any function on strings.
  \<open>includesStr\<close> is the substring test \<open>includes\<close>.
\<close>

type_synonym jsstring = "nat list"

definition ascii :: "string \<Rightarrow> jsstring" where
  "ascii s = map of_char s"

definition isWhitespace :: "nat \<Rightarrow> bool" where
  "isWhitespace u \<longleftrightarrow>
     u \<in> set [9, 10, 11, 12, 13, 32, 160, 5760, 8192, 8193, 8194, 8195, 8196, 8197, 8198,
              8199, 8200, 8201, 8202, 8232, 8233, 8239, 8287, 12288, 65279]"

definition trimStart :: "jsstring \<Rightarrow> jsstring" where
  "trimStart s = dropWhile isWhitespace s"

definition trimEnd :: "jsstring \<Rightarrow> jsstring" where
  "trimEnd s = rev (dropWhile isWhitespace (rev s))"

definition trim :: "jsstring \<Rightarrow> jsstring" where
  "trim s = trimEnd (trimStart s)"

fun startsWith :: "'a list \<Rightarrow> 'a list \<Rightarrow> bool" where
  "startsWith s [] = True"
| "startsWith [] (p # ps) = False"
| "startsWith (c # cs) (p # ps) = (c = p \<and> startsWith cs ps)"

fun includesStr :: "'a list \<Rightarrow> 'a list \<Rightarrow> bool" where
  "includesStr [] p = (p = [])"
| "includesStr (c # cs) p = (startsWith (c # cs) p \<or> includesStr cs p)"

definition digitChar :: "nat \<Rightarrow> char" where
  "digitChar d = ''0123456789'' ! d"

text \<open>Decimal rendering of a non-negative integer, as a template literal does it.\<close>

function showNat :: "nat \<Rightarrow> string" where
  "showNat n = (if n < 10 then [digitChar n] else showNat (n div 10) @ [digitChar (n mod 10)])"
  by pat_completeness auto
termination
  by (relation "measure id") auto

declare showNat.simps [simp del]

definition joinLines :: "jsstring list \<Rightarrow> jsstring" where
  "joinLines ls = (case ls of [] \<Rightarrow> [] | l # rest \<Rightarrow> l @ concat (map (\<lambda>x. 10 # x) rest))"

section \<open>Task diagnostics (src/task-diagnostics.ts)\<close>

datatype task_status = Active | Paused | TaskError | Completed

datatype run_status = RunSuccess | RunError

text \<open>
  \<open>ScheduledTask\<close> and \<open>TaskRunLog\<close> of \<open>types.ts\<close>, with the fields the test
  helpers \<open>makeTask\<close> and \<open>makeRun\<close> fill. The field \<open>id\<close> is called \<open>ident\<close>;
  the run log's \<open>status\<close>, \<open>result\<close> and \<open>error\<close> carry the prefix \<open>run_\<close>.
  Nullable strings are options.
\<close>

record scheduled_task =
  ident :: jsstring
  group_folder :: jsstring
  chat_jid :: jsstring
  prompt :: jsstring
  schedule_type :: jsstring
  schedule_value :: jsstring
  context_mode :: jsstring
  next_run :: "jsstring option"
  last_run :: "jsstring option"
  last_result :: "jsstring option"
  status :: task_status
  created_at :: jsstring
  retry_count :: int
  last_error :: "jsstring option"
  max_retries :: int

record task_run_log =
  task_id :: jsstring
  run_at :: jsstring
  duration_ms :: int
  run_status :: run_status
  run_result :: "jsstring option"
  run_error :: "jsstring option"

datatype pattern = Persistent | Timeout | Orphaned | RateLimited | Transient | Unknown

datatype recommendation = Retry | Pause | Deactivate | Notify | IncreaseTimeout

record task_diagnosis =
  pattern :: pattern
  description :: jsstring
  recommendation :: recommendation
  details :: "jsstring option"

text \<open>The keyword tests of \<open>diagnoseTaskFailure\<close>, on the lower-cased error.\<close>

definition matchesOrphaned :: "(jsstring \<Rightarrow> jsstring) \<Rightarrow> jsstring \<Rightarrow> bool" where
  "matchesOrphaned lower currentError =
     (let lowerError = lower currentError in
      (includesStr lowerError (ascii ''group not found'') \<or>
       includesStr lowerError (ascii ''not found'')) \<and>
      (includesStr lowerError (ascii ''group not found'') \<or>
       includesStr lowerError (ascii ''chat not found'')))"

definition matchesRateLimit :: "(jsstring \<Rightarrow> jsstring) \<Rightarrow> jsstring \<Rightarrow> bool" where
  "matchesRateLimit lower currentError =
     (let lowerError = lower currentError in
      includesStr lowerError (ascii ''rate limit'') \<or> includesStr lowerError (ascii ''429'') \<or>
      includesStr lowerError (ascii ''too many requests'') \<or>
      includesStr lowerError (ascii ''api error''))"

definition matchesTimeout :: "(jsstring \<Rightarrow> jsstring) \<Rightarrow> jsstring \<Rightarrow> bool" where
  "matchesTimeout lower currentError =
     (let lowerError = lower currentError in
      includesStr lowerError (ascii ''timeout'') \<or> includesStr lowerError (ascii ''timed out'') \<or>
      includesStr lowerError (ascii ''idle timeout''))"

text \<open>\<open>normalize\<close>: \<open>e.slice(0, 100).toLowerCase().trim()\<close>.\<close>

definition normalize :: "(jsstring \<Rightarrow> jsstring) \<Rightarrow> jsstring \<Rightarrow> jsstring" where
  "normalize lower e = trim (lower (take 100 e))"

text \<open>
  \<open>recentRuns.filter((r) => r.status === 'error' && r.error).map((r) => r.error!)\<close>:
  a null or empty error is falsy and is dropped.
\<close>

definition recentErrorsOf :: "task_run_log list \<Rightarrow> jsstring list" where
  "recentErrorsOf recentRuns =
     concat (map (\<lambda>r. case run_error r of
                          Some e \<Rightarrow> (if run_status r = RunError \<and> e \<noteq> [] then [e] else [])
                        | None \<Rightarrow> []) recentRuns)"

definition diagnoseTaskFailure ::
  "(jsstring \<Rightarrow> jsstring) \<Rightarrow> scheduled_task \<Rightarrow> task_run_log list \<Rightarrow> jsstring
     \<Rightarrow> task_diagnosis" where
  "diagnoseTaskFailure lower task recentRuns currentError =
     (if matchesOrphaned lower currentError then
        \<lparr>pattern = Orphaned, description = ascii ''Gruppe oder Chat nicht mehr erreichbar'',
         recommendation = Deactivate, details = Some currentError\<rparr>
      else if matchesRateLimit lower currentError then
        \<lparr>pattern = RateLimited, description = ascii ''API Rate-Limit erreicht'',
         recommendation = Retry, details = Some currentError\<rparr>
      else if matchesTimeout lower currentError then
        \<lparr>pattern = Timeout,
         description = ascii ''Container-Timeout '' @ [252] @ ascii ''berschritten'',
         recommendation = IncreaseTimeout, details = Some currentError\<rparr>
      else
        (let recentErrors = recentErrorsOf recentRuns in
         if length recentErrors \<ge> 2 then
           (let currentNorm = normalize lower currentError;
                sameErrorCount =
                  length (filter (\<lambda>e. normalize lower e = currentNorm) recentErrors)
            in if sameErrorCount \<ge> 2 then
                 \<lparr>pattern = Persistent,
                  description = ascii ''Persistenter Fehler ('' @ ascii (showNat (sameErrorCount + 1))
                                @ ascii ''x wiederholt)'',
                  recommendation = Pause, details = Some currentError\<rparr>
               else
                 \<lparr>pattern = Transient,
                  description = ascii ''Unterschiedliche Fehler '' @ [8212]
                                @ ascii '' m'' @ [246] @ ascii ''glicherweise vor''
                                @ [252] @ ascii ''bergehend'',
                  recommendation = Retry, details = Some currentError\<rparr>)
         else
           \<lparr>pattern = Unknown, description = ascii ''Unbekannter Fehler'',
            recommendation = Retry, details = Some currentError\<rparr>))"

definition RECOMMENDATION_LABELS :: "recommendation \<Rightarrow> jsstring" where
  "RECOMMENDATION_LABELS r =
     (case r of
        Retry \<Rightarrow> ascii ''Erneut versuchen''
      | Pause \<Rightarrow> ascii ''Task pausieren''
      | Deactivate \<Rightarrow> ascii ''Task deaktivieren''
      | Notify \<Rightarrow> ascii ''Owner benachrichtigen''
      | IncreaseTimeout \<Rightarrow> ascii ''Timeout erh'' @ [246] @ ascii ''hen'')"

definition ACTION_LABELS :: "jsstring \<rightharpoonup> jsstring" where
  "ACTION_LABELS =
     map_of [(ascii ''paused'', ascii ''pausiert''), (ascii ''completed'', ascii ''deaktiviert''),
             (ascii ''error'', ascii ''auf Fehler-Status gesetzt'')]"

definition formatFailureNotification ::
  "scheduled_task \<Rightarrow> task_diagnosis \<Rightarrow> jsstring \<Rightarrow> jsstring \<Rightarrow> jsstring" where
  "formatFailureNotification task diagnosis err action =
     (let promptPreview = (if length (prompt task) > 60 then take 57 (prompt task) @ ascii ''...''
                           else prompt task);
          actionLabel = (case ACTION_LABELS action of
                           Some l \<Rightarrow> (if l = [] then action else l)
                         | None \<Rightarrow> action)
      in joinLines
           [[9888, 65039] @ ascii '' Task '' @ [34] @ promptPreview @ [34]
              @ ascii '' fehlgeschlagen'',
            [],
            ascii ''Diagnose: '' @ description diagnosis,
            ascii ''Empfehlung: '' @ RECOMMENDATION_LABELS (recommendation diagnosis),
            ascii ''Fehler: '' @ err,
            [],
            ascii ''Task wurde '' @ actionLabel
              @ ascii ''. Nutze resume_task/schedule_task um fortzufahren.''])"

section \<open>Task scheduler (src/task-scheduler.ts)\<close>

text \<open>Retry delays in milliseconds: 30s, 2min, 10min.\<close>

definition RETRY_DELAYS :: "int list" where
  "RETRY_DELAYS = [30000, 120000, 600000]"

text \<open>A JavaScript array read: \<open>undefined\<close> (here \<open>None\<close>) outside the array.\<close>

definition arrayGet :: "'a list \<Rightarrow> int \<Rightarrow> 'a option" where
  "arrayGet xs i = (if 0 \<le> i \<and> i < int (length xs) then Some (xs ! nat i) else None)"

text \<open>
  The state \<open>handleTaskFailure\<close> works on: the task table and the run log of the
  database (newest run first), the calls of \<open>deps.sendMessage\<close> made so far, and the
  one-shot timers registered by \<open>scheduleRetry\<close> (task id and delay).
\<close>

record sched_state =
  db_tasks :: "jsstring \<rightharpoonup> scheduled_task"
  db_runs :: "task_run_log list"
  sent :: "(jsstring \<times> jsstring) list"
  timers :: "(jsstring \<times> int option) list"

text \<open>
  Modelled from the spec: \<open>db.js\<close> (\<open>incrementTaskRetryCount\<close>, \<open>getRecentTaskRuns\<close>,
  \<open>updateTaskStatus\<close>, \<open>logTaskRun\<close>) is not among the sources. Status and retry
  updates are single-row writes; the run log is append-only and read newest first.
  \<open>incrementTaskRetryCount\<close> adds one to the row's \<open>retry_count\<close>, stores the error as
  \<open>last_error\<close> and returns the new count.
\<close>

definition incrementTaskRetryCount :: "jsstring \<Rightarrow> jsstring \<Rightarrow> sched_state \<Rightarrow> int \<times> sched_state" where
  "incrementTaskRetryCount i err st =
     (case db_tasks st i of
        None \<Rightarrow> (0, st)
      | Some t \<Rightarrow>
          (retry_count t + 1,
           st\<lparr>db_tasks := (db_tasks st)(i \<mapsto> t\<lparr>retry_count := retry_count t + 1,
                                                   last_error := Some err\<rparr>)\<rparr>))"

definition getRecentTaskRuns :: "jsstring \<Rightarrow> nat \<Rightarrow> sched_state \<Rightarrow> task_run_log list" where
  "getRecentTaskRuns i limit st = take limit (filter (\<lambda>r. task_id r = i) (db_runs st))"

definition updateTaskStatus :: "jsstring \<Rightarrow> task_status \<Rightarrow> sched_state \<Rightarrow> sched_state" where
  "updateTaskStatus i s st =
     (case db_tasks st i of
        None \<Rightarrow> st
      | Some t \<Rightarrow> st\<lparr>db_tasks := (db_tasks st)(i \<mapsto> t\<lparr>status := s\<rparr>)\<rparr>)"

definition logTaskRun :: "task_run_log \<Rightarrow> sched_state \<Rightarrow> sched_state" where
  "logTaskRun r st = st\<lparr>db_runs := r # db_runs st\<rparr>"

text \<open>
  \<open>deps.sendMessage(jid, text)\<close>: the call is recorded; a rejected promise is caught
  and logged by the caller and changes nothing else.
\<close>

definition sendMessage :: "jsstring \<Rightarrow> jsstring \<Rightarrow> sched_state \<Rightarrow> sched_state" where
  "sendMessage jid text st = st\<lparr>sent := sent st @ [(jid, text)]\<rparr>"

text \<open>\<open>scheduleRetry\<close> registers a one-shot timer for the task.\<close>

definition scheduleRetry :: "scheduled_task \<Rightarrow> int option \<Rightarrow> sched_state \<Rightarrow> sched_state" where
  "scheduleRetry task delayMs st = st\<lparr>timers := timers st @ [(ident task, delayMs)]\<rparr>"

text \<open>\<open>task.max_retries || 3\<close>\<close>

definition maxRetriesOf :: "scheduled_task \<Rightarrow> int" where
  "maxRetriesOf task = (if max_retries task = 0 then 3 else max_retries task)"

text \<open>
  The delay of the standard path:
  \<open>RETRY_DELAYS[Math.min(retryCount - 1, RETRY_DELAYS.length - 1)]\<close>.
\<close>

definition standardDelay :: "int \<Rightarrow> int option" where
  "standardDelay retryCount =
     (let delayIndex = min (retryCount - 1) (int (length RETRY_DELAYS) - 1)
      in arrayGet RETRY_DELAYS delayIndex)"

definition handleTaskFailure ::
  "(jsstring \<Rightarrow> jsstring) \<Rightarrow> scheduled_task \<Rightarrow> jsstring \<Rightarrow> sched_state \<Rightarrow> sched_state" where
  "handleTaskFailure lower task err st =
     (let (retryCount, st1) = incrementTaskRetryCount (ident task) err st;
          recentRuns = getRecentTaskRuns (ident task) 10 st1;
          diagnosis = diagnoseTaskFailure lower task recentRuns err
      in case pattern diagnosis of
           Orphaned \<Rightarrow>
             sendMessage (chat_jid task)
               (formatFailureNotification task diagnosis err (ascii ''completed''))
               (updateTaskStatus (ident task) Completed st1)
         | Persistent \<Rightarrow>
             sendMessage (chat_jid task)
               (formatFailureNotification task diagnosis err (ascii ''paused''))
               (updateTaskStatus (ident task) Paused st1)
         | RateLimited \<Rightarrow>
             (if retryCount \<le> maxRetriesOf task then
                scheduleRetry task (arrayGet RETRY_DELAYS (int (length RETRY_DELAYS) - 1)) st1
              else
                sendMessage (chat_jid task)
                  (formatFailureNotification task diagnosis err (ascii ''error''))
                  (updateTaskStatus (ident task) TaskError st1))
         | _ \<Rightarrow>
             (if retryCount \<le> maxRetriesOf task then
                scheduleRetry task (standardDelay retryCount) st1
              else
                sendMessage (chat_jid task)
                  (formatFailureNotification task diagnosis err (ascii ''error''))
                  (updateTaskStatus (ident task) TaskError st1)))"

text \<open>
  The failing tail of \<open>runTask\<close>: the run is logged with status \<open>error\<close>, then
  \<open>handleTaskFailure\<close> is called with the same error.
\<close>

definition failedRun :: "(jsstring \<Rightarrow> jsstring) \<Rightarrow> scheduled_task \<Rightarrow> jsstring \<Rightarrow> int
    \<Rightarrow> jsstring option \<Rightarrow> jsstring \<Rightarrow> sched_state \<Rightarrow> sched_state" where
  "failedRun lower task now durationMs res err st =
     handleTaskFailure lower task err
       (logTaskRun \<lparr>task_id = ident task, run_at = now, duration_ms = durationMs,
                    run_status = RunError, run_result = res, run_error = Some err\<rparr> st)"

text \<open>
  Consecutive failed runs of one task; each element is
  \<open>(run_at, duration_ms, result, error)\<close> of the run.
\<close>

fun failedRuns :: "(jsstring \<Rightarrow> jsstring) \<Rightarrow> scheduled_task
    \<Rightarrow> (jsstring \<times> int \<times> jsstring option \<times> jsstring) list
    \<Rightarrow> sched_state \<Rightarrow> sched_state" where
  "failedRuns lower task [] st = st"
| "failedRuns lower task ((now, durationMs, res, err) # rest) st =
     failedRuns lower task rest (failedRun lower task now durationMs res err st)"

text \<open>The diagnosis \<open>handleTaskFailure\<close> computes in a state, and the standard path.\<close>

definition diagnosisAt ::
  "(jsstring \<Rightarrow> jsstring) \<Rightarrow> scheduled_task \<Rightarrow> jsstring \<Rightarrow> sched_state \<Rightarrow> task_diagnosis" where
  "diagnosisAt lower task err st =
     diagnoseTaskFailure lower task (getRecentTaskRuns (ident task) 10 st) err"

definition standardPath :: "task_diagnosis \<Rightarrow> bool" where
  "standardPath d \<longleftrightarrow> pattern d \<noteq> Orphaned \<and> pattern d \<noteq> Persistent \<and> pattern d \<noteq> RateLimited"

text \<open>Every failure of a run of consecutive failures takes the standard path.\<close>

fun allStandard :: "(jsstring \<Rightarrow> jsstring) \<Rightarrow> scheduled_task
    \<Rightarrow> (jsstring \<times> int \<times> jsstring option \<times> jsstring) list
    \<Rightarrow> sched_state \<Rightarrow> bool" where
  "allStandard lower task [] st = True"
| "allStandard lower task ((now, durationMs, res, err) # rest) st =
     (standardPath (diagnosisAt lower task err
        (logTaskRun \<lparr>task_id = ident task, run_at = now, duration_ms = durationMs,
                     run_status = RunError, run_result = res, run_error = Some err\<rparr> st))
      \<and> allStandard lower task rest (failedRun lower task now durationMs res err st))"

text \<open>
  The status \<open>runTask\<close> gives the run it logs: \<open>status: error ? 'error' : 'success'\<close>,
  where a null or empty error is falsy.
\<close>

definition loggedStatus :: "jsstring option \<Rightarrow> run_status" where
  "loggedStatus err =
     (case err of Some e \<Rightarrow> (if e \<noteq> [] then RunError else RunSuccess) | None \<Rightarrow> RunSuccess)"

text \<open>
  The task of the repository's tests (\<open>makeTask\<close>), alone in an empty database; a logged
  run; and \<open>toLowerCase\<close> as it acts on strings of ASCII.
\<close>

definition exampleTask :: scheduled_task where
  "exampleTask =
     \<lparr>ident = ascii ''task-1'', group_folder = ascii ''main'', chat_jid = ascii ''group@g.us'',
      prompt = ascii ''Check Wetter'', schedule_type = ascii ''cron'',
      schedule_value = ascii ''0 9 * * *'', context_mode = ascii ''isolated'', next_run = None,
      last_run = None, last_result = None, status = Active,
      created_at = ascii ''2024-01-01T00:00:00.000Z'', retry_count = 0,
      last_error = None, max_retries = 3\<rparr>"

definition exampleState :: "scheduled_task \<Rightarrow> task_run_log list \<Rightarrow> sched_state" where
  "exampleState row runs =
     \<lparr>db_tasks = [ident row \<mapsto> row], db_runs = runs, sent = [], timers = []\<rparr>"

definition exampleRun :: "jsstring \<Rightarrow> jsstring option \<Rightarrow> task_run_log" where
  "exampleRun at err =
     \<lparr>task_id = ascii ''task-1'', run_at = at, duration_ms = 5000,
      run_status = loggedStatus err, run_result = None, run_error = err\<rparr>"

definition asciiLower :: "jsstring \<Rightarrow> jsstring" where
  "asciiLower s = map (\<lambda>u. if 65 \<le> u \<and> u \<le> 90 then u + 32 else u) s"

section \<open>Paths, files and JSON\<close>

text \<open>
  Node's POSIX \<open>path\<close> module on strings. \<open>normalizeSegs\<close> is \<open>normalizeString\<close>
  on the segments between separators: empty segments and \<open>.\<close> are dropped, \<open>..\<close>
  removes the segment before it, and above the start it is kept only when
  \<open>allowAboveRoot\<close> holds (relative paths).
\<close>

fun splitOn :: "char \<Rightarrow> string \<Rightarrow> string list" where
  "splitOn c [] = [[]]"
| "splitOn c (x # xs) =
     (if x = c then [] # splitOn c xs
      else (case splitOn c xs of [] \<Rightarrow> [[x]] | s # ss \<Rightarrow> (x # s) # ss))"

definition joinWith :: "string \<Rightarrow> string list \<Rightarrow> string" where
  "joinWith s xs = (case xs of [] \<Rightarrow> [] | x # rest \<Rightarrow> x @ concat (map (\<lambda>y. s @ y) rest))"

definition normStep :: "bool \<Rightarrow> string list \<Rightarrow> string \<Rightarrow> string list" where
  "normStep allowAboveRoot res seg =
     (if seg = [] \<or> seg = ''.'' then res
      else if seg = ''..'' then
        (if res \<noteq> [] \<and> last res \<noteq> ''..'' then butlast res
         else if allowAboveRoot then res @ [''..'']
         else res)
      else res @ [seg])"

definition normalizeSegs :: "bool \<Rightarrow> string list \<Rightarrow> string list" where
  "normalizeSegs allowAboveRoot segs = foldl (normStep allowAboveRoot) [] segs"

definition isAbsolute :: "string \<Rightarrow> bool" where
  "isAbsolute p = (case p of [] \<Rightarrow> False | c # _ \<Rightarrow> c = CHR ''/'')"

definition pathNormalize :: "string \<Rightarrow> string" where
  "pathNormalize p =
     (if p = [] then ''.''
      else
        (let absolute = isAbsolute p;
             trailingSeparator = (last p = CHR ''/'');
             body = joinWith ''/'' (normalizeSegs (\<not> absolute) (splitOn (CHR ''/'') p))
         in if body = [] then (if absolute then ''/'' else if trailingSeparator then ''./'' else ''.'')
            else (let b = (if trailingSeparator then body @ ''/'' else body)
                  in if absolute then CHR ''/'' # b else b)))"

text \<open>\<open>path.join(a, b)\<close>: the non-empty arguments joined by a separator, normalized.\<close>

definition pathJoin :: "string \<Rightarrow> string \<Rightarrow> string" where
  "pathJoin a b =
     (let joined = (if a = [] then b else if b = [] then a else a @ ''/'' @ b)
      in if joined = [] then ''.'' else pathNormalize joined)"

text \<open>
  \<open>path.resolve(p)\<close> in a process whose working directory is \<open>cwd\<close> (an absolute
  path): the segments of the absolute, normalized path, and the path as a string.
\<close>

definition resolveSegs :: "string \<Rightarrow> string \<Rightarrow> string list" where
  "resolveSegs cwd p =
     normalizeSegs False (splitOn (CHR ''/'') (if isAbsolute p then p else cwd @ ''/'' @ p))"

definition pathResolve :: "string \<Rightarrow> string \<Rightarrow> string" where
  "pathResolve cwd p = CHR ''/'' # joinWith ''/'' (resolveSegs cwd p)"

text \<open>
  JSON values. A file either holds the serialization of a value, which \<open>JSON.parse\<close>
  gives back (\<open>Json\<close>), or text that does not parse (\<open>Raw\<close>).
\<close>

datatype json = JNull | JBool bool | JNum int | JStr string | JArr "json list"
  | JObj "(string \<times> json) list"

datatype content = Json json | Raw string

text \<open>JavaScript truthiness of a parsed value, and a property read (\<open>None\<close> is \<open>undefined\<close>).\<close>

fun truthy :: "json \<Rightarrow> bool" where
  "truthy JNull = False"
| "truthy (JBool b) = b"
| "truthy (JNum n) = (n \<noteq> 0)"
| "truthy (JStr s) = (s \<noteq> [])"
| "truthy (JArr xs) = True"
| "truthy (JObj kvs) = True"

fun property :: "json \<Rightarrow> string \<Rightarrow> json option" where
  "property (JObj kvs) k = map_of kvs k"
| "property j k = None"

text \<open>
  The file system: each directory, named by the segments of its canonical absolute
  path, has a list of entries (name and content). Symbolic links are listed apart, each
  with the canonical path of the directory it leads to; the code creates none, so they
  are part of the environment of a call. \<open>realpathSegs\<close> walks a normalized absolute
  path and follows the links on the way, and \<open>locate\<close> is the canonical place of a
  file: its name in the canonical directory. The \<open>fs\<close> calls take a path string,
  resolve it against the working directory and follow the links; \<open>mkdirSync\<close> with
  \<open>recursive\<close> changes no file and is left out.
\<close>

type_synonym filesystem = "string list \<Rightarrow> (string \<times> content) list"

definition putEntry :: "string list \<Rightarrow> content \<Rightarrow> filesystem \<Rightarrow> filesystem" where
  "putEntry k c fs =
     (if k = [] then fs
      else fs(butlast k := (last k, c) # filter (\<lambda>e. fst e \<noteq> last k) (fs (butlast k))))"

definition dropEntry :: "string list \<Rightarrow> filesystem \<Rightarrow> filesystem" where
  "dropEntry k fs =
     (if k = [] then fs
      else fs(butlast k := filter (\<lambda>e. fst e \<noteq> last k) (fs (butlast k))))"

definition getEntry :: "string list \<Rightarrow> filesystem \<Rightarrow> content option" where
  "getEntry k fs = (if k = [] then None else map_of (fs (butlast k)) (last k))"

type_synonym symlinks = "(string list \<times> string list) list"

fun realpathSegs :: "symlinks \<Rightarrow> string list \<Rightarrow> string list \<Rightarrow> string list" where
  "realpathSegs links cur [] = cur"
| "realpathSegs links cur (s # rest) =
     (case map_of links (cur @ [s]) of
        Some target \<Rightarrow> realpathSegs links target rest
      | None \<Rightarrow> realpathSegs links (cur @ [s]) rest)"

definition locate :: "symlinks \<Rightarrow> string list \<Rightarrow> string list" where
  "locate links k = (if k = [] then [] else realpathSegs links [] (butlast k) @ [last k])"

definition writeFileSync ::
  "symlinks \<Rightarrow> string \<Rightarrow> string \<Rightarrow> content \<Rightarrow> filesystem \<Rightarrow> filesystem" where
  "writeFileSync links cwd p c fs = putEntry (locate links (resolveSegs cwd p)) c fs"

definition renameSync ::
  "symlinks \<Rightarrow> string \<Rightarrow> string \<Rightarrow> string \<Rightarrow> filesystem \<Rightarrow> filesystem" where
  "renameSync links cwd old new fs =
     (case getEntry (locate links (resolveSegs cwd old)) fs of
        None \<Rightarrow> fs
      | Some c \<Rightarrow>
          putEntry (locate links (resolveSegs cwd new)) c
            (dropEntry (locate links (resolveSegs cwd old)) fs))"

definition unlinkSync :: "symlinks \<Rightarrow> string \<Rightarrow> string \<Rightarrow> filesystem \<Rightarrow> filesystem" where
  "unlinkSync links cwd p fs = dropEntry (locate links (resolveSegs cwd p)) fs"

definition readFileSync :: "symlinks \<Rightarrow> string \<Rightarrow> string \<Rightarrow> filesystem \<Rightarrow> content option" where
  "readFileSync links cwd p fs = getEntry (locate links (resolveSegs cwd p)) fs"

definition readdirSync :: "symlinks \<Rightarrow> string \<Rightarrow> string \<Rightarrow> filesystem \<Rightarrow> string list" where
  "readdirSync links cwd p fs = remdups (map fst (fs (realpathSegs links [] (resolveSegs cwd p))))"

section \<open>IPC writes (container MCP server and plugins)\<close>

text \<open>
  What a call reads from its environment: the working directory, the symbolic links of
  the file system, \<open>Date.now()\<close>, the
  digits of \<open>Math.random()\<close> in base 36, \<open>new Date().toISOString()\<close>, and the
  library parsers the \<open>schedule_task\<close> handler validates with
  (\<open>CronExpressionParser.parse\<close> succeeds, \<open>parseInt(v, 10)\<close> with \<open>None\<close> for
  \<open>NaN\<close>, \<open>new Date(v).getTime()\<close> is not \<open>NaN\<close>).
\<close>

record env =
  cwd :: string
  symlinks :: symlinks
  nowMs :: nat
  randomDigits :: "nat list"
  isoNow :: string
  cronParses :: "string \<Rightarrow> bool"
  parseInt10 :: "string \<Rightarrow> int option"
  dateParses :: "string \<Rightarrow> bool"

text \<open>\<open>Math.random().toString(36).slice(2, 8)\<close>: at most six base-36 digits.\<close>

definition randomSuffix :: "nat list \<Rightarrow> string" where
  "randomSuffix ds = map (\<lambda>d. ''0123456789abcdefghijklmnopqrstuvwxyz'' ! (d mod 36)) (take 6 ds)"

definition ipcFilename :: "env \<Rightarrow> string" where
  "ipcFilename e = showNat (nowMs e) @ ''-'' @ randomSuffix (randomDigits e) @ ''.json''"

definition IPC_DIR :: string where
  "IPC_DIR = ''/workspace/ipc''"

definition MESSAGES_DIR :: string where
  "MESSAGES_DIR = pathJoin IPC_DIR ''messages''"

definition TASKS_DIR :: string where
  "TASKS_DIR = pathJoin IPC_DIR ''tasks''"

datatype ipc_error = IpcWriteDenied string

text \<open>\<open>writeIpcFile\<close> of the MCP server (unnamed/part_003), with the containment check.\<close>

definition writeIpcFile :: "env \<Rightarrow> string \<Rightarrow> json \<Rightarrow> filesystem \<Rightarrow> (ipc_error + string) \<times> filesystem" where
  "writeIpcFile e dir data fs =
     (let resolvedDir = pathResolve (cwd e) dir in
      if \<not> startsWith resolvedDir (IPC_DIR @ ''/'') \<and> resolvedDir \<noteq> IPC_DIR then
        (Inl (IpcWriteDenied (''IPC write denied: path escapes IPC directory: '' @ dir)), fs)
      else
        (let filename = ipcFilename e;
             filepath = pathJoin dir filename;
             tempPath = filepath @ ''.tmp'';
             fs1 = writeFileSync (symlinks e) (cwd e) tempPath (Json data) fs;
             fs2 = renameSync (symlinks e) (cwd e) tempPath filepath fs1
         in (Inr filename, fs2)))"

text \<open>
  \<open>writeIpcFile\<close> of the plugins (container/plugins/tasks and groups): the same write
  without the check; the plugins call it with \<open>TASKS_DIR\<close> only.
\<close>

definition writeIpcFile_plugin :: "env \<Rightarrow> string \<Rightarrow> json \<Rightarrow> filesystem \<Rightarrow> string \<times> filesystem" where
  "writeIpcFile_plugin e dir data fs =
     (let filename = ipcFilename e;
          filepath = pathJoin dir filename;
          tempPath = filepath @ ''.tmp'';
          fs1 = writeFileSync (symlinks e) (cwd e) tempPath (Json data) fs;
          fs2 = renameSync (symlinks e) (cwd e) tempPath filepath fs1
      in (filename, fs2))"

section \<open>Plugin tools (container/plugins)\<close>

text \<open>
  \<open>ToolContext\<close> (the fields the handlers read) and \<open>ToolResult\<close>: the texts of the
  \<open>content\<close> items, and \<open>isError\<close> (absent is \<open>False\<close>).
\<close>

record tool_context =
  chatJid :: string
  groupFolder :: string
  isMain :: bool

record tool_result =
  texts :: "string list"
  isError :: bool

record register_group_args =
  rg_jid :: string
  rg_name :: string
  rg_folder :: string
  rg_trigger :: string

definition registerGroupHandler ::
  "env \<Rightarrow> register_group_args \<Rightarrow> tool_context \<Rightarrow> filesystem \<Rightarrow> tool_result \<times> filesystem" where
  "registerGroupHandler e args ctx fs =
     (if \<not> isMain ctx then
        (\<lparr>texts = [''Only the main group can register new groups.''], isError = True\<rparr>, fs)
      else
        (let (filename, fs') =
               writeIpcFile_plugin e TASKS_DIR
                 (JObj [(''type'', JStr ''register_group''), (''jid'', JStr (rg_jid args)),
                        (''name'', JStr (rg_name args)), (''folder'', JStr (rg_folder args)),
                        (''trigger'', JStr (rg_trigger args)), (''timestamp'', JStr (isoNow e))]) fs
         in (\<lparr>texts = [''Group '' @ [CHR 0x22] @ rg_name args @ [CHR 0x22]
                          @ '' registered. It will start receiving messages immediately.''],
              isError = False\<rparr>, fs')))"

text \<open>
  The arguments of \<open>schedule_task\<close>; the optional ones are options (\<open>None\<close> is
  \<open>undefined\<close>).
\<close>

record schedule_task_args =
  st_prompt :: string
  st_schedule_type :: string
  st_schedule_value :: string
  st_context_mode :: "string option"
  st_target_group_jid :: "string option"

definition scheduleTaskHandler ::
  "env \<Rightarrow> schedule_task_args \<Rightarrow> tool_context \<Rightarrow> filesystem \<Rightarrow> tool_result \<times> filesystem" where
  "scheduleTaskHandler e args ctx fs =
     (let scheduleType = st_schedule_type args;
          scheduleValue = st_schedule_value args
      in
      if scheduleType = ''cron'' \<and> \<not> cronParses e scheduleValue then
        (\<lparr>texts = [''Invalid cron: '' @ [CHR 0x22] @ scheduleValue @ [CHR 0x22] @ ''.''],
          isError = True\<rparr>, fs)
      else if scheduleType = ''interval'' \<and>
              (case parseInt10 e scheduleValue of None \<Rightarrow> True | Some ms \<Rightarrow> ms \<le> 0) then
        (\<lparr>texts = [''Invalid interval: '' @ [CHR 0x22] @ scheduleValue @ [CHR 0x22] @ ''.''],
          isError = True\<rparr>, fs)
      else if scheduleType = ''once'' \<and> \<not> dateParses e scheduleValue then
        (\<lparr>texts = [''Invalid timestamp: '' @ [CHR 0x22] @ scheduleValue @ [CHR 0x22] @ ''.''],
          isError = True\<rparr>, fs)
      else
        (let targetJid =
               (case st_target_group_jid args of
                  Some t \<Rightarrow> (if isMain ctx \<and> t \<noteq> [] then t else chatJid ctx)
                | None \<Rightarrow> chatJid ctx);
             (filename, fs') =
               writeIpcFile_plugin e TASKS_DIR
                 (JObj [(''type'', JStr ''schedule_task''), (''prompt'', JStr (st_prompt args)),
                        (''schedule_type'', JStr scheduleType),
                        (''schedule_value'', JStr scheduleValue),
                        (''context_mode'',
                           JStr (case st_context_mode args of
                                   Some m \<Rightarrow> (if m = [] then ''group'' else m)
                                 | None \<Rightarrow> ''group'')),
                        (''targetJid'', JStr targetJid),
                        (''createdBy'', JStr (groupFolder ctx)),
                        (''timestamp'', JStr (isoNow e))]) fs
         in (\<lparr>texts = [''Task scheduled ('' @ filename @ ''): '' @ scheduleType @ '' - ''
                          @ scheduleValue],
              isError = False\<rparr>, fs')))"

section \<open>IPC input drain (agent runner, unnamed/part_003)\<close>

definition IPC_INPUT_DIR :: string where
  "IPC_INPUT_DIR = ''/workspace/ipc/input''"

definition endsWith :: "string \<Rightarrow> string \<Rightarrow> bool" where
  "endsWith s suf = startsWith (rev s) (rev suf)"

text \<open>
  The body of the loop of \<open>drainIpcInput\<close> for one file, on the messages collected so
  far, the file system and the log lines. Reading or parsing may throw, and so does
  \<open>data.type\<close> when the parsed value is \<open>null\<close>; the handler logs and unlinks the
  file. The text of the exception is left out of the log line.
\<close>

definition processInputFile ::
  "symlinks \<Rightarrow> string \<Rightarrow> string \<Rightarrow> json list \<times> filesystem \<times> string list
     \<Rightarrow> json list \<times> filesystem \<times> string list" where
  "processInputFile links wd file st =
     (case st of (messages, fs, logs) \<Rightarrow>
        (let filePath = pathJoin IPC_INPUT_DIR file in
         case readFileSync links wd filePath fs of
           Some (Json data) \<Rightarrow>
             (let fs1 = unlinkSync links wd filePath fs in
              if data = JNull then
                (messages, unlinkSync links wd filePath fs1,
                 logs @ [''Failed to process input file '' @ file])
              else if property data ''type'' = Some (JStr ''message'') \<and>
                      (case property data ''text'' of Some t \<Rightarrow> truthy t | None \<Rightarrow> False) then
                (messages @ [the (property data ''text'')], fs1, logs)
              else (messages, fs1, logs))
         | _ \<Rightarrow>
             (messages, unlinkSync links wd filePath fs,
              logs @ [''Failed to process input file '' @ file])))"

definition drainIpcInput ::
  "symlinks \<Rightarrow> string \<Rightarrow> filesystem \<Rightarrow> json list \<times> filesystem \<times> string list" where
  "drainIpcInput links wd fs =
     (let files = sort (filter (\<lambda>f. endsWith f ''.json'') (readdirSync links wd IPC_INPUT_DIR fs))
      in foldl (\<lambda>st file. processInputFile links wd file st) ([], fs, []) files)"

text \<open>
  Writing \<open>{type: "message", text: x}\<close> into the inbox with \<open>writeIpcFile\<close>, once per
  element, each in its own environment (time and random digits).
\<close>

definition writeInputMessage :: "env \<Rightarrow> string \<Rightarrow> filesystem \<Rightarrow> filesystem" where
  "writeInputMessage e x fs =
     snd (writeIpcFile e IPC_INPUT_DIR (JObj [(''type'', JStr ''message''), (''text'', JStr x)]) fs)"

fun writeInputMessages :: "(env \<times> string) list \<Rightarrow> filesystem \<Rightarrow> filesystem" where
  "writeInputMessages [] fs = fs"
| "writeInputMessages ((e, x) # rest) fs = writeInputMessages rest (writeInputMessage e x fs)"

section \<open>Discord channel (unnamed/part_000)\<close>










text \<open>
  An environment for concrete runs, without symbolic links, and the same with a link
  \<open>/workspace/ipc/link\<close> to \<open>/etc\<close>.
\<close>

definition exampleEnv :: env where
  "exampleEnv =
     \<lparr>cwd = ''/workspace/group'', symlinks = [], nowMs = 1700000000000, randomDigits = [10, 11, 12, 1, 2, 3],
      isoNow = ''2023-11-14T22:13:20.000Z'', cronParses = (\<lambda>s. s = ''0 9 * * *''),
      parseInt10 = (\<lambda>s. if s = ''300000'' then Some 300000 else None),
      dateParses = (\<lambda>s. s = ''2026-02-01T15:30:00'')\<rparr>"


text \<open>
  A second write in the same millisecond as \<open>exampleEnv\<close>, with other random digits,
  the same write one millisecond later, and the inbox directory at its canonical place.
\<close>

definition sameMsEnv :: env where
  "sameMsEnv = exampleEnv\<lparr>randomDigits := [1, 2, 3, 10, 11, 12]\<rparr>"

definition laterEnv :: env where
  "laterEnv = sameMsEnv\<lparr>nowMs := 1700000000001\<rparr>"

definition inboxDir :: "symlinks \<Rightarrow> string list" where
  "inboxDir links = realpathSegs links [] [''workspace'', ''ipc'', ''input'']"

text \<open>A segment \<open>normalizeString\<close> keeps as it is: not empty, not \<open>.\<close>, not \<open>..\<close>.\<close>

definition properSeg :: "string \<Rightarrow> bool" where
  "properSeg f \<longleftrightarrow> f \<noteq> [] \<and> f \<noteq> ''.'' \<and> f \<noteq> ''..''"

section \<open>Properties\<close>

lemma standardDelay_values:
  "standardDelay n = (if n \<le> 0 then None else if n = 1 then Some 30000 else if n = 2 then Some 120000 else Some 600000)"
proof -
  consider "n \<le> 0" | "n = 1" | "n = 2" | "3 \<le> n" by linarith
  then show ?thesis
  proof cases
    case 1
    then show ?thesis by (simp add: standardDelay_def arrayGet_def RETRY_DELAYS_def)
  next
    case 2
    then show ?thesis by (simp add: standardDelay_def arrayGet_def RETRY_DELAYS_def)
  next
    case 3
    then show ?thesis by (simp add: standardDelay_def arrayGet_def RETRY_DELAYS_def)
  next
    case 4
    then have "min (n - 1) 2 = 2" by simp
    with 4 show ?thesis
      by (simp add: standardDelay_def arrayGet_def RETRY_DELAYS_def numeral_2_eq_2)
  qed
qed

lemma getRecent_increment [simp]:
  "getRecentTaskRuns i k (snd (incrementTaskRetryCount j err st)) = getRecentTaskRuns i k st"
  by (simp add: getRecentTaskRuns_def incrementTaskRetryCount_def split: option.splits)

lemma handle_standard_retry:
  assumes "db_tasks st (ident task) = Some row"
    and "standardPath (diagnosisAt lower task err st)"
    and "retry_count row + 1 \<le> maxRetriesOf task"
  shows "handleTaskFailure lower task err st =
     st\<lparr>db_tasks := (db_tasks st)(ident task \<mapsto> row\<lparr>retry_count := retry_count row + 1, last_error := Some err\<rparr>),
        timers := timers st @ [(ident task, standardDelay (retry_count row + 1))]\<rparr>"
  using assms
  by (auto simp: handleTaskFailure_def incrementTaskRetryCount_def diagnosisAt_def standardPath_def
      getRecentTaskRuns_def scheduleRetry_def Let_def split: pattern.splits)

lemma handle_standard_exhausted:
  assumes "db_tasks st (ident task) = Some row"
    and "standardPath (diagnosisAt lower task err st)"
    and "\<not> retry_count row + 1 \<le> maxRetriesOf task"
  shows "handleTaskFailure lower task err st =
     st\<lparr>db_tasks := (db_tasks st)(ident task \<mapsto> row\<lparr>retry_count := retry_count row + 1, last_error := Some err, status := TaskError\<rparr>),
        sent := sent st @ [(chat_jid task, formatFailureNotification task (diagnosisAt lower task err st) err (ascii ''error''))]\<rparr>"
  using assms
  by (auto simp: handleTaskFailure_def incrementTaskRetryCount_def diagnosisAt_def standardPath_def
      getRecentTaskRuns_def sendMessage_def updateTaskStatus_def Let_def split: pattern.splits)


lemma failedRuns_append:
  "failedRuns lower task (xs @ ys) st = failedRuns lower task ys (failedRuns lower task xs st)"
  by (induction xs arbitrary: st) auto

lemma allStandard_append:
  "allStandard lower task (xs @ ys) st \<longleftrightarrow> allStandard lower task xs st \<and> allStandard lower task ys (failedRuns lower task xs st)"
  by (induction xs arbitrary: st) auto

lemma logTaskRun_fields [simp]:
  "db_tasks (logTaskRun r st) = db_tasks st"
  "sent (logTaskRun r st) = sent st"
  "timers (logTaskRun r st) = timers st"
  by (simp_all add: logTaskRun_def)

lemma failedRuns_retrying:
  assumes "db_tasks st (ident task) = Some row"
    and "allStandard lower task runs st"
    and "retry_count row + int (length runs) \<le> maxRetriesOf task"
  shows "\<exists>row'. db_tasks (failedRuns lower task runs st) (ident task) = Some row'
           \<and> retry_count row' = retry_count row + int (length runs)
           \<and> status row' = status row
           \<and> sent (failedRuns lower task runs st) = sent st
           \<and> timers (failedRuns lower task runs st) =
               timers st @ map (\<lambda>k. (ident task, standardDelay (retry_count row + int k)))
                               [1..<Suc (length runs)]"
  using assms
proof (induction runs arbitrary: st row)
  case Nil
  then show ?case by simp
next
  case (Cons r rest)
  obtain now durationMs res err where r: "r = (now, durationMs, res, err)"
    by (cases r) auto
  let ?lg = "logTaskRun \<lparr>task_id = ident task, run_at = now, duration_ms = durationMs,
                     run_status = RunError, run_result = res, run_error = Some err\<rparr> st"
  let ?st1 = "failedRun lower task now durationMs res err st"
  let ?row1 = "row\<lparr>retry_count := retry_count row + 1, last_error := Some err\<rparr>"
  have row_lg: "db_tasks ?lg (ident task) = Some row" using Cons.prems(1) by simp
  have std: "standardPath (diagnosisAt lower task err ?lg)" using Cons.prems(2) r by simp
  have le: "retry_count row + 1 \<le> maxRetriesOf task" using Cons.prems(3) by simp
  have step: "?st1 = ?lg\<lparr>db_tasks := (db_tasks ?lg)(ident task \<mapsto> ?row1),
        timers := timers ?lg @ [(ident task, standardDelay (retry_count row + 1))]\<rparr>"
    unfolding failedRun_def by (rule handle_standard_retry [OF row_lg std le])
  have row1: "db_tasks ?st1 (ident task) = Some ?row1" by (simp add: step)
  have std1: "allStandard lower task rest ?st1" using Cons.prems(2) r by simp
  have le1: "retry_count ?row1 + int (length rest) \<le> maxRetriesOf task"
    using Cons.prems(3) by simp
  from Cons.IH [OF row1 std1 le1] obtain row' where
    a: "db_tasks (failedRuns lower task rest ?st1) (ident task) = Some row'"
    and b: "retry_count row' = retry_count ?row1 + int (length rest)"
    and c: "status row' = status ?row1"
    and d: "sent (failedRuns lower task rest ?st1) = sent ?st1"
    and e: "timers (failedRuns lower task rest ?st1) =
               timers ?st1 @ map (\<lambda>k. (ident task, standardDelay (retry_count ?row1 + int k)))
                               [1..<Suc (length rest)]"
    by blast
  have shift: "map (\<lambda>k. (ident task, standardDelay (retry_count row + int k))) [1..<Suc (Suc (length rest))]
      = (ident task, standardDelay (retry_count row + 1))
        # map (\<lambda>k. (ident task, standardDelay (retry_count ?row1 + int k))) [1..<Suc (length rest)]"
  proof -
    have s1: "[1..<Suc (Suc (length rest))] = 1 # map Suc [1..<Suc (length rest)]"
    proof -
      have "[1..<Suc (Suc (length rest))] = 1 # [Suc 1..<Suc (Suc (length rest))]"
        by (rule upt_conv_Cons) simp
      then show ?thesis by (simp only: map_Suc_upt)
    qed
    have s2: "(\<lambda>k. (ident task, standardDelay (retry_count row + int (Suc k))))
        = (\<lambda>k. (ident task, standardDelay (retry_count ?row1 + int k)))"
      by (rule ext) (simp add: algebra_simps)
    have "map (\<lambda>k. (ident task, standardDelay (retry_count row + int k))) (1 # map Suc [1..<Suc (length rest)])
        = (ident task, standardDelay (retry_count row + 1))
          # map (\<lambda>k. (ident task, standardDelay (retry_count row + int (Suc k)))) [1..<Suc (length rest)]"
      by (simp only: list.map map_map comp_def of_nat_1)
    then show ?thesis by (simp only: s1 s2)
  qed
  have fr: "failedRuns lower task (r # rest) st = failedRuns lower task rest ?st1" by (simp add: r)
  have "timers ?st1 = timers st @ [(ident task, standardDelay (retry_count row + 1))]"
    by (simp add: step)
  with e shift have e': "timers (failedRuns lower task rest ?st1) =
      timers st @ map (\<lambda>k. (ident task, standardDelay (retry_count row + int k)))
                               [1..<Suc (length (r # rest))]"
    by simp
  have "sent ?st1 = sent st" by (simp add: step)
  with d have d': "sent (failedRuns lower task rest ?st1) = sent st" by simp
  from b have b': "retry_count row' = retry_count row + int (length (r # rest))" by simp
  from c have c': "status row' = status row" by simp
  show ?case unfolding fr using a b' c' d' e' by blast
qed


text \<open>
  Claim C2. A failure handled by the standard retry path (diagnosis neither orphaned nor
  persistent nor rate-limited): while the incremented retry count is at most
  \<open>maxRetries\<close> (\<open>task.max_retries || 3\<close>), a retry is scheduled, nothing is sent and
  the status stays; once the incremented count exceeds \<open>maxRetries\<close>, the status becomes
  \<open>error\<close> and exactly one notification goes to the task's chat. From a retry count
  of 0, \<open>maxRetries + 1\<close> consecutive failures on the standard path end in status
  \<open>error\<close> with exactly one notification, after \<open>maxRetries\<close> scheduled retries.
\<close>

theorem standard_retry_until_exhausted:
  assumes row: "db_tasks st (ident task) = Some row"
  shows "(standardPath (diagnosisAt lower task err st) \<and> retry_count row + 1 \<le> maxRetriesOf task \<longrightarrow>
            sent (handleTaskFailure lower task err st) = sent st
          \<and> timers (handleTaskFailure lower task err st) =
              timers st @ [(ident task, standardDelay (retry_count row + 1))]
          \<and> map_option status (db_tasks (handleTaskFailure lower task err st) (ident task)) = Some (status row))
       \<and> (standardPath (diagnosisAt lower task err st) \<and> maxRetriesOf task < retry_count row + 1 \<longrightarrow>
            map_option status (db_tasks (handleTaskFailure lower task err st) (ident task)) = Some TaskError
          \<and> sent (handleTaskFailure lower task err st) =
              sent st @ [(chat_jid task,
                          formatFailureNotification task (diagnosisAt lower task err st) err (ascii ''error''))]
          \<and> timers (handleTaskFailure lower task err st) = timers st)
       \<and> (retry_count row = 0 \<and> 0 \<le> max_retries task
            \<and> length runs = nat (maxRetriesOf task) + 1 \<and> allStandard lower task runs st \<longrightarrow>
            map_option status (db_tasks (failedRuns lower task runs st) (ident task)) = Some TaskError
          \<and> (\<exists>msg. sent (failedRuns lower task runs st) = sent st @ [(chat_jid task, msg)])
          \<and> timers (failedRuns lower task runs st) =
              timers st @ map (\<lambda>k. (ident task, standardDelay (int k))) [1..<Suc (nat (maxRetriesOf task))])"
proof (intro conjI impI)
  assume a: "standardPath (diagnosisAt lower task err st) \<and> retry_count row + 1 \<le> maxRetriesOf task"
  then have eq: "handleTaskFailure lower task err st =
      st\<lparr>db_tasks := (db_tasks st)(ident task \<mapsto> row\<lparr>retry_count := retry_count row + 1, last_error := Some err\<rparr>),
        timers := timers st @ [(ident task, standardDelay (retry_count row + 1))]\<rparr>"
    using handle_standard_retry [OF row] by blast
  show "sent (handleTaskFailure lower task err st) = sent st" by (simp add: eq)
  show "timers (handleTaskFailure lower task err st) =
              timers st @ [(ident task, standardDelay (retry_count row + 1))]" by (simp add: eq)
  show "map_option status (db_tasks (handleTaskFailure lower task err st) (ident task)) = Some (status row)"
    by (simp add: eq)
next
  assume a: "standardPath (diagnosisAt lower task err st) \<and> maxRetriesOf task < retry_count row + 1"
  then have eq: "handleTaskFailure lower task err st =
     st\<lparr>db_tasks := (db_tasks st)(ident task \<mapsto> row\<lparr>retry_count := retry_count row + 1, last_error := Some err, status := TaskError\<rparr>),
        sent := sent st @ [(chat_jid task, formatFailureNotification task (diagnosisAt lower task err st) err (ascii ''error''))]\<rparr>"
    using handle_standard_exhausted [OF row, where err = err and lower = lower] by simp
  show "map_option status (db_tasks (handleTaskFailure lower task err st) (ident task)) = Some TaskError"
    by (simp add: eq)
  show "sent (handleTaskFailure lower task err st) =
              sent st @ [(chat_jid task,
                          formatFailureNotification task (diagnosisAt lower task err st) err (ascii ''error''))]"
    by (simp add: eq)
  show "timers (handleTaskFailure lower task err st) = timers st" by (simp add: eq)
next
  assume a: "retry_count row = 0 \<and> 0 \<le> max_retries task
            \<and> length runs = nat (maxRetriesOf task) + 1 \<and> allStandard lower task runs st"
  then have rc: "retry_count row = 0" and len: "length runs = nat (maxRetriesOf task) + 1"
    and std: "allStandard lower task runs st" and pos: "0 \<le> maxRetriesOf task"
    by (auto simp: maxRetriesOf_def)
  from len obtain front lst where runs: "runs = front @ [lst]"
    by (cases runs rule: rev_cases) auto
  with len have lf: "length front = nat (maxRetriesOf task)" by simp
  obtain now durationMs res e where lst: "lst = (now, durationMs, res, e)" by (cases lst) auto
  let ?mid = "failedRuns lower task front st"
  have stdf: "allStandard lower task front st" and stdl: "allStandard lower task [lst] ?mid"
    using std by (simp_all add: runs allStandard_append)
  have "retry_count row + int (length front) \<le> maxRetriesOf task" using rc lf pos by simp
  from failedRuns_retrying [OF row stdf this] obtain row' where
    r1: "db_tasks ?mid (ident task) = Some row'"
    and r2: "retry_count row' = retry_count row + int (length front)"
    and r4: "sent ?mid = sent st"
    and r5: "timers ?mid = timers st @ map (\<lambda>k. (ident task, standardDelay (retry_count row + int k)))
                               [1..<Suc (length front)]"
    by blast
  let ?lg = "logTaskRun \<lparr>task_id = ident task, run_at = now, duration_ms = durationMs,
                     run_status = RunError, run_result = res, run_error = Some e\<rparr> ?mid"
  have row_lg: "db_tasks ?lg (ident task) = Some row'" using r1 by simp
  have std_lg: "standardPath (diagnosisAt lower task e ?lg)" using stdl lst by simp
  have over: "\<not> retry_count row' + 1 \<le> maxRetriesOf task" using r2 rc lf pos by simp
  have fin: "failedRuns lower task runs st = handleTaskFailure lower task e ?lg"
    by (simp add: runs failedRuns_append lst failedRun_def)
  note eq = handle_standard_exhausted [OF row_lg std_lg over]
  show "map_option status (db_tasks (failedRuns lower task runs st) (ident task)) = Some TaskError"
    by (simp add: fin eq)
  show "\<exists>msg. sent (failedRuns lower task runs st) = sent st @ [(chat_jid task, msg)]"
    by (simp add: fin eq r4)
  show "timers (failedRuns lower task runs st) =
              timers st @ map (\<lambda>k. (ident task, standardDelay (int k))) [1..<Suc (nat (maxRetriesOf task))]"
    by (simp add: fin eq r5 rc lf)
qed

lemma ex_row: "db_tasks (exampleState row runs) (ident row) = Some row"
  by (simp add: exampleState_def)

theorem standard_retry_until_exhausted_witness:
  "timers (handleTaskFailure asciiLower exampleTask (ascii ''Some weird error'') (exampleState exampleTask []))
     = [((ascii ''task-1''), Some 30000)]
   \<and> sent (handleTaskFailure asciiLower exampleTask (ascii ''Some weird error'') (exampleState exampleTask [])) = []
   \<and> map_option status (db_tasks (handleTaskFailure asciiLower exampleTask (ascii ''Some weird error'')
        (exampleState (exampleTask\<lparr>retry_count := 3\<rparr>) [])) (ascii ''task-1'')) = Some TaskError
   \<and> map_option status (db_tasks (failedRuns asciiLower exampleTask
        [((ascii ''t1''), 5000, None, (ascii ''Container timed out after 300s'')),
         ((ascii ''t2''), 5000, None, (ascii ''Container timed out after 300s'')),
         ((ascii ''t3''), 5000, None, (ascii ''Container timed out after 300s'')),
         ((ascii ''t4''), 5000, None, (ascii ''Container timed out after 300s''))]
        (exampleState exampleTask [])) (ascii ''task-1'')) = Some TaskError"
proof -
  let ?st = "exampleState exampleTask []"
  let ?row3 = "exampleTask\<lparr>retry_count := 3\<rparr>"
  let ?st3 = "exampleState ?row3 []"
  let ?runs = "[((ascii ''t1''), 5000, None, (ascii ''Container timed out after 300s'')),
         ((ascii ''t2''), 5000, None, (ascii ''Container timed out after 300s'')),
         ((ascii ''t3''), 5000, None, (ascii ''Container timed out after 300s'')),
         ((ascii ''t4''), 5000, None, (ascii ''Container timed out after 300s''))]"
  have id3: "ident ?row3 = ident exampleTask" by simp
  have h1: "db_tasks ?st (ident exampleTask) = Some exampleTask" by (rule ex_row)
  have h3: "db_tasks ?st3 (ident exampleTask) = Some ?row3" using ex_row [of ?row3 "[]"] by simp
  have unk: "\<not> matchesOrphaned asciiLower (ascii ''Some weird error'')" "\<not> matchesRateLimit asciiLower (ascii ''Some weird error'')"
    "\<not> matchesTimeout asciiLower (ascii ''Some weird error'')"
    by (simp_all add: matchesOrphaned_def matchesRateLimit_def matchesTimeout_def asciiLower_def ascii_def)
  have d1: "standardPath (diagnosisAt asciiLower exampleTask (ascii ''Some weird error'') ?st)"
    by (simp add: standardPath_def diagnosisAt_def diagnoseTaskFailure_def unk
        getRecentTaskRuns_def exampleState_def recentErrorsOf_def)
  have d3: "standardPath (diagnosisAt asciiLower exampleTask (ascii ''Some weird error'') ?st3)"
    by (simp add: standardPath_def diagnosisAt_def diagnoseTaskFailure_def unk
        getRecentTaskRuns_def exampleState_def recentErrorsOf_def)
  have mx: "maxRetriesOf exampleTask = 3" by (simp add: maxRetriesOf_def exampleTask_def)
  have tmo: "\<not> matchesOrphaned asciiLower (ascii ''Container timed out after 300s'')"
    "\<not> matchesRateLimit asciiLower (ascii ''Container timed out after 300s'')"
    "matchesTimeout asciiLower (ascii ''Container timed out after 300s'')"
    by (simp_all add: matchesOrphaned_def matchesRateLimit_def matchesTimeout_def asciiLower_def ascii_def)
  have dt: "\<And>s. standardPath (diagnosisAt asciiLower exampleTask (ascii ''Container timed out after 300s'') s)"
    by (simp add: standardPath_def diagnosisAt_def diagnoseTaskFailure_def tmo)
  have all: "allStandard asciiLower exampleTask ?runs ?st" by (simp add: dt)
  have len: "length ?runs = nat (maxRetriesOf exampleTask) + 1" by (simp add: mx)
  have z: "retry_count exampleTask = 0" "0 \<le> max_retries exampleTask" by (simp_all add: exampleTask_def)
  note A = standard_retry_until_exhausted [OF h1, where lower = asciiLower
      and err = "ascii ''Some weird error''" and runs = ?runs]
  note B = standard_retry_until_exhausted [OF h3, where lower = asciiLower
      and err = "ascii ''Some weird error''" and runs = "[]"]
  have i: "ident exampleTask = (ascii ''task-1'')" by (simp add: exampleTask_def)
  have sd: "standardDelay 1 = Some 30000" by (simp add: standardDelay_values)
  show ?thesis
    using A B d1 d3 all len z mx
    by (simp add: i sd exampleState_def)
qed




text \<open>
  Claim C4. Over consecutive failures of one task on the standard retry path, starting
  from a retry count of 0 and within \<open>maxRetries\<close>, the delay of the n-th retry is
  \<open>RETRY_DELAYS[min(n-1, 2)]\<close> over the ladder 30s, 2min, 10min; the delay is
  non-decreasing in the retry count and stays at 10min from the third retry on.
\<close>

theorem retry_delay_ladder:
  assumes row: "db_tasks st (ident task) = Some row"
    and zero: "retry_count row = 0"
    and std: "allStandard lower task runs st"
    and le: "int (length runs) \<le> maxRetriesOf task"
  shows "timers (failedRuns lower task runs st) =
           timers st @ map (\<lambda>n. (ident task, Some (RETRY_DELAYS ! min (n - 1) 2)))
                           [1..<Suc (length runs)]
       \<and> (\<forall>n m. 1 \<le> n \<and> n \<le> m \<longrightarrow>
             (\<exists>d e. standardDelay n = Some d \<and> standardDelay m = Some e \<and> d \<le> e))
       \<and> (\<forall>n. 3 \<le> n \<longrightarrow> standardDelay n = Some 600000)"
proof (intro conjI allI impI)
  have le': "retry_count row + int (length runs) \<le> maxRetriesOf task" using zero le by simp
  from failedRuns_retrying [OF row std le'] have
    t: "timers (failedRuns lower task runs st) =
         timers st @ map (\<lambda>k. (ident task, standardDelay (retry_count row + int k)))
                         [1..<Suc (length runs)]"
    by blast
  have "standardDelay (retry_count row + int k) = Some (RETRY_DELAYS ! min (k - 1) 2)"
    if "k \<in> set [1..<Suc (length runs)]" for k
  proof -
    from that have k: "1 \<le> k" by (simp only: set_upt atLeastLessThan_iff)
    then have "nat (min (int k - 1) 2) = min (k - 1) 2" by (auto simp: min_def)
    moreover from k have "0 \<le> min (int k - 1) 2" "min (int k - 1) 2 < 3" by auto
    ultimately show ?thesis
      by (simp add: zero standardDelay_def arrayGet_def Let_def) (simp add: RETRY_DELAYS_def)
  qed
  then have "map (\<lambda>k. (ident task, standardDelay (retry_count row + int k))) [1..<Suc (length runs)]
      = map (\<lambda>n. (ident task, Some (RETRY_DELAYS ! min (n - 1) 2))) [1..<Suc (length runs)]"
    by (intro map_cong) auto
  with t show "timers (failedRuns lower task runs st) =
           timers st @ map (\<lambda>n. (ident task, Some (RETRY_DELAYS ! min (n - 1) 2)))
                           [1..<Suc (length runs)]"
    by simp
next
  fix n m :: int
  assume "1 \<le> n \<and> n \<le> m"
  then show "\<exists>d e. standardDelay n = Some d \<and> standardDelay m = Some e \<and> d \<le> e"
    by (auto simp: standardDelay_values)
next
  fix n :: int
  assume "3 \<le> n"
  then show "standardDelay n = Some 600000" by (simp add: standardDelay_values)
qed

lemma timeout_example:
  "\<not> matchesOrphaned asciiLower (ascii ''Container timed out after 300s'')"
  "\<not> matchesRateLimit asciiLower (ascii ''Container timed out after 300s'')"
  "matchesTimeout asciiLower (ascii ''Container timed out after 300s'')"
  by (simp_all add: matchesOrphaned_def matchesRateLimit_def matchesTimeout_def
      asciiLower_def ascii_def)

lemma timeout_example_standard:
  "standardPath (diagnosisAt asciiLower task (ascii ''Container timed out after 300s'') s)"
  by (simp add: standardPath_def diagnosisAt_def diagnoseTaskFailure_def timeout_example)

theorem retry_delay_ladder_witness:
  "timers (failedRuns asciiLower exampleTask
        [((ascii ''t1''), 5000, None, (ascii ''Container timed out after 300s'')),
         ((ascii ''t2''), 5000, None, (ascii ''Container timed out after 300s'')),
         ((ascii ''t3''), 5000, None, (ascii ''Container timed out after 300s''))]
        (exampleState exampleTask []))
     = [((ascii ''task-1''), Some 30000), ((ascii ''task-1''), Some 120000), ((ascii ''task-1''), Some 600000)]"
proof -
  let ?runs = "[((ascii ''t1''), 5000, None, (ascii ''Container timed out after 300s'')),
         ((ascii ''t2''), 5000, None, (ascii ''Container timed out after 300s'')),
         ((ascii ''t3''), 5000, None, (ascii ''Container timed out after 300s''))]"
  have h1: "db_tasks (exampleState exampleTask []) (ident exampleTask) = Some exampleTask"
    by (rule ex_row)
  have h2: "retry_count exampleTask = 0" by (simp add: exampleTask_def)
  have h3: "allStandard asciiLower exampleTask ?runs (exampleState exampleTask [])"
    by (simp add: timeout_example_standard)
  have h4: "int (length ?runs) \<le> maxRetriesOf exampleTask"
    by (simp add: maxRetriesOf_def exampleTask_def)
  have up: "[1..<Suc 3] = [1, 2, 3]" by (simp add: upt_rec)
  have i: "ident exampleTask = (ascii ''task-1'')" by (simp add: exampleTask_def)
  from retry_delay_ladder [OF h1 h2 h3 h4] show ?thesis
    by (simp add: up i exampleState_def RETRY_DELAYS_def)
qed



lemma handle_rate_limited:
  assumes row: "db_tasks st (ident task) = Some row"
    and rl: "matchesRateLimit lower err" and no: "\<not> matchesOrphaned lower err"
  shows "pattern (diagnosisAt lower task err st) = RateLimited"
    and "retry_count row + 1 \<le> maxRetriesOf task \<Longrightarrow> handleTaskFailure lower task err st =
     st\<lparr>db_tasks := (db_tasks st)(ident task \<mapsto> row\<lparr>retry_count := retry_count row + 1, last_error := Some err\<rparr>),
        timers := timers st @ [(ident task, Some 600000)]\<rparr>"
    and "\<not> retry_count row + 1 \<le> maxRetriesOf task \<Longrightarrow> handleTaskFailure lower task err st =
     st\<lparr>db_tasks := (db_tasks st)(ident task \<mapsto> row\<lparr>retry_count := retry_count row + 1, last_error := Some err, status := TaskError\<rparr>),
        sent := sent st @ [(chat_jid task, formatFailureNotification task (diagnosisAt lower task err st) err (ascii ''error''))]\<rparr>"
  using assms
  by (auto simp: handleTaskFailure_def incrementTaskRetryCount_def diagnosisAt_def
      diagnoseTaskFailure_def getRecentTaskRuns_def scheduleRetry_def sendMessage_def
      updateTaskStatus_def arrayGet_def RETRY_DELAYS_def Let_def)

text \<open>
  Claim C3, amended. A failure whose error matches a rate-limit pattern (\<open>rate limit\<close>,
  \<open>429\<close>, \<open>too many requests\<close>, \<open>api error\<close>) and no orphaned pattern
  (\<open>group not found\<close>, \<open>chat not found\<close>) is diagnosed rate-limited; while the
  incremented retry count is at most \<open>maxRetries\<close> the retry is scheduled at 600000 ms
  whatever the count, and nothing is sent; beyond \<open>maxRetries\<close> the status becomes
  \<open>error\<close> with one notification to the task's chat.
\<close>

theorem rate_limited_max_backoff:
  assumes row: "db_tasks st (ident task) = Some row"
    and rl: "matchesRateLimit lower err" and no: "\<not> matchesOrphaned lower err"
  shows "pattern (diagnosisAt lower task err st) = RateLimited
       \<and> (retry_count row + 1 \<le> maxRetriesOf task \<longrightarrow>
            timers (handleTaskFailure lower task err st) = timers st @ [(ident task, Some 600000)]
          \<and> sent (handleTaskFailure lower task err st) = sent st
          \<and> map_option status (db_tasks (handleTaskFailure lower task err st) (ident task)) = Some (status row))
       \<and> (maxRetriesOf task < retry_count row + 1 \<longrightarrow>
            map_option status (db_tasks (handleTaskFailure lower task err st) (ident task)) = Some TaskError
          \<and> sent (handleTaskFailure lower task err st) =
              sent st @ [(chat_jid task,
                          formatFailureNotification task (diagnosisAt lower task err st) err (ascii ''error''))]
          \<and> timers (handleTaskFailure lower task err st) = timers st)"
proof (intro conjI impI)
  show "pattern (diagnosisAt lower task err st) = RateLimited" by (rule handle_rate_limited(1) [OF assms])
next
  assume a: "retry_count row + 1 \<le> maxRetriesOf task"
  note eq = handle_rate_limited(2) [OF assms a]
  show "timers (handleTaskFailure lower task err st) = timers st @ [(ident task, Some 600000)]"
    by (simp add: eq)
  show "sent (handleTaskFailure lower task err st) = sent st" by (simp add: eq)
  show "map_option status (db_tasks (handleTaskFailure lower task err st) (ident task)) = Some (status row)"
    by (simp add: eq)
next
  assume "maxRetriesOf task < retry_count row + 1"
  then have a: "\<not> retry_count row + 1 \<le> maxRetriesOf task" by simp
  note eq = handle_rate_limited(3) [OF assms a]
  show "map_option status (db_tasks (handleTaskFailure lower task err st) (ident task)) = Some TaskError"
    by (simp add: eq)
  show "sent (handleTaskFailure lower task err st) =
              sent st @ [(chat_jid task,
                          formatFailureNotification task (diagnosisAt lower task err st) err (ascii ''error''))]"
    by (simp add: eq)
  show "timers (handleTaskFailure lower task err st) = timers st" by (simp add: eq)
qed

lemma rate_example:
  "matchesRateLimit asciiLower (ascii ''HTTP 429 Too Many Requests'')"
  "\<not> matchesOrphaned asciiLower (ascii ''HTTP 429 Too Many Requests'')"
  by (simp_all add: matchesOrphaned_def matchesRateLimit_def asciiLower_def ascii_def)

theorem rate_limited_max_backoff_witness:
  "timers (handleTaskFailure asciiLower exampleTask (ascii ''HTTP 429 Too Many Requests'')
       (exampleState exampleTask [])) = [((ascii ''task-1''), Some 600000)]
   \<and> timers (handleTaskFailure asciiLower exampleTask (ascii ''HTTP 429 Too Many Requests'')
       (exampleState (exampleTask\<lparr>retry_count := 2\<rparr>) [])) = [((ascii ''task-1''), Some 600000)]
   \<and> map_option status (db_tasks (handleTaskFailure asciiLower exampleTask (ascii ''HTTP 429 Too Many Requests'')
       (exampleState (exampleTask\<lparr>retry_count := 3\<rparr>) [])) (ascii ''task-1'')) = Some TaskError"
proof -
  have i: "ident exampleTask = (ascii ''task-1'')" by (simp add: exampleTask_def)
  have mx: "maxRetriesOf exampleTask = 3" by (simp add: maxRetriesOf_def exampleTask_def)
  have rc: "retry_count exampleTask = 0" by (simp add: exampleTask_def)
  have h0: "db_tasks (exampleState exampleTask []) (ident exampleTask) = Some exampleTask"
    by (rule ex_row)
  have h2: "db_tasks (exampleState (exampleTask\<lparr>retry_count := 2\<rparr>) []) (ident exampleTask)
      = Some (exampleTask\<lparr>retry_count := 2\<rparr>)"
    using ex_row [of "exampleTask\<lparr>retry_count := 2\<rparr>" "[]"] by simp
  have h3: "db_tasks (exampleState (exampleTask\<lparr>retry_count := 3\<rparr>) []) (ident exampleTask)
      = Some (exampleTask\<lparr>retry_count := 3\<rparr>)"
    using ex_row [of "exampleTask\<lparr>retry_count := 3\<rparr>" "[]"] by simp
  show ?thesis
    using rate_limited_max_backoff [OF h0 rate_example]
      rate_limited_max_backoff [OF h2 rate_example]
      rate_limited_max_backoff [OF h3 rate_example]
    by (simp add: i mx rc exampleState_def)
qed

lemma orphaned_rate_example:
  "matchesRateLimit asciiLower (ascii ''Group not found: room-429'')"
  "matchesOrphaned asciiLower (ascii ''Group not found: room-429'')"
  by (simp_all add: matchesOrphaned_def matchesRateLimit_def asciiLower_def ascii_def)

text \<open>
  Claim C3 as stated fails where the error also matches the orphaned pattern, which
  \<open>diagnoseTaskFailure\<close> tests first: the task is completed and no retry is scheduled.
\<close>

theorem rate_limited_counterexample:
  "\<not> (matchesRateLimit asciiLower (ascii ''Group not found: room-429'') \<and>
       retry_count exampleTask + 1 \<le> maxRetriesOf exampleTask \<longrightarrow>
       timers (handleTaskFailure asciiLower exampleTask (ascii ''Group not found: room-429'')
                 (exampleState exampleTask []))
         = timers (exampleState exampleTask []) @ [(ident exampleTask, Some 600000)])"
  by (simp add: orphaned_rate_example handleTaskFailure_def incrementTaskRetryCount_def
      diagnoseTaskFailure_def exampleState_def maxRetriesOf_def exampleTask_def
      sendMessage_def updateTaskStatus_def Let_def)



lemma sameError_count:
  "length (filter (\<lambda>e. normalize lower e = c) (recentErrorsOf rs)) =
   length (filter (\<lambda>r. run_status r = RunError \<and>
       (case run_error r of Some e \<Rightarrow> e \<noteq> [] \<and> normalize lower e = c | None \<Rightarrow> False)) rs)"
  by (induction rs) (auto simp: recentErrorsOf_def split: option.splits)

lemma logged_error_truthy:
  assumes "run_status r = loggedStatus (run_error r)"
  shows "(run_status r = RunError \<and>
            (case run_error r of Some e \<Rightarrow> normalize lower e = c | None \<Rightarrow> False))
       = (run_status r = RunError \<and>
            (case run_error r of Some e \<Rightarrow> e \<noteq> [] \<and> normalize lower e = c | None \<Rightarrow> False))"
  using assms by (auto simp: loggedStatus_def split: option.splits if_splits)

lemma diagnose_persistent:
  assumes "\<not> matchesOrphaned lower err" "\<not> matchesRateLimit lower err"
    "\<not> matchesTimeout lower err"
    and logged: "\<forall>r \<in> set recentRuns. run_status r = loggedStatus (run_error r)"
    and two: "2 \<le> length (filter (\<lambda>r. run_status r = RunError \<and>
       (case run_error r of Some e \<Rightarrow> normalize lower e = normalize lower err | None \<Rightarrow> False))
         recentRuns)"
  shows "pattern (diagnoseTaskFailure lower task recentRuns err) = Persistent"
    and "recommendation (diagnoseTaskFailure lower task recentRuns err) = Pause"
proof -
  have "filter (\<lambda>r. run_status r = RunError \<and>
       (case run_error r of Some e \<Rightarrow> normalize lower e = normalize lower err | None \<Rightarrow> False))
         recentRuns
      = filter (\<lambda>r. run_status r = RunError \<and>
       (case run_error r of Some e \<Rightarrow> e \<noteq> [] \<and> normalize lower e = normalize lower err
          | None \<Rightarrow> False)) recentRuns"
    by (rule filter_cong [OF refl]) (rule logged_error_truthy, rule bspec [OF logged])
  with two have c: "2 \<le> length (filter (\<lambda>e. normalize lower e = normalize lower err)
      (recentErrorsOf recentRuns))"
    by (simp only: sameError_count)
  have "length (filter (\<lambda>e. normalize lower e = normalize lower err) (recentErrorsOf recentRuns))
      \<le> length (recentErrorsOf recentRuns)" by (rule length_filter_le)
  with c have l: "2 \<le> length (recentErrorsOf recentRuns)" by linarith
  show "pattern (diagnoseTaskFailure lower task recentRuns err) = Persistent"
    using assms(1-3) c l by (simp add: diagnoseTaskFailure_def Let_def)
  show "recommendation (diagnoseTaskFailure lower task recentRuns err) = Pause"
    using assms(1-3) c l by (simp add: diagnoseTaskFailure_def Let_def)
qed

lemma handle_persistent:
  assumes row: "db_tasks st (ident task) = Some row"
    and p: "pattern (diagnosisAt lower task err st) = Persistent"
  shows "handleTaskFailure lower task err st =
     st\<lparr>db_tasks := (db_tasks st)(ident task \<mapsto> row\<lparr>retry_count := retry_count row + 1, last_error := Some err, status := Paused\<rparr>),
        sent := sent st @ [(chat_jid task, formatFailureNotification task (diagnosisAt lower task err st) err (ascii ''paused''))]\<rparr>"
  using assms
  by (auto simp: handleTaskFailure_def incrementTaskRetryCount_def diagnosisAt_def
      getRecentTaskRuns_def sendMessage_def updateTaskStatus_def Let_def)

text \<open>
  Claim C1. Let the current error match none of the orphaned, rate-limited and timeout
  patterns, and let at least two of the recent runs have status \<open>error\<close> with an error
  equal to the current one under \<open>normalize\<close> (first 100 code units, lower-cased,
  trimmed), the runs carrying the status \<open>runTask\<close> logs them with. Then
  \<open>diagnoseTaskFailure\<close> returns \<open>persistent\<close> with recommendation \<open>pause\<close>, and
  \<open>handleTaskFailure\<close> sets the task's status to \<open>paused\<close>, sends exactly one
  notification to the task's chat and schedules no retry. This holds for every
  \<open>toLowerCase\<close>.
\<close>

theorem persistent_failure_pauses:
  assumes none: "\<not> matchesOrphaned lower err \<and> \<not> matchesRateLimit lower err
      \<and> \<not> matchesTimeout lower err"
    and logged: "\<forall>r \<in> set recentRuns. run_status r = loggedStatus (run_error r)"
    and two: "2 \<le> length (filter (\<lambda>r. run_status r = RunError \<and>
       (case run_error r of Some e \<Rightarrow> normalize lower e = normalize lower err | None \<Rightarrow> False))
         recentRuns)"
  shows "pattern (diagnoseTaskFailure lower task recentRuns err) = Persistent
       \<and> recommendation (diagnoseTaskFailure lower task recentRuns err) = Pause
       \<and> (db_tasks st (ident task) = Some row \<and> getRecentTaskRuns (ident task) 10 st = recentRuns \<longrightarrow>
            map_option status (db_tasks (handleTaskFailure lower task err st) (ident task)) = Some Paused
          \<and> sent (handleTaskFailure lower task err st) =
              sent st @ [(chat_jid task,
                  formatFailureNotification task (diagnoseTaskFailure lower task recentRuns err) err
                    (ascii ''paused''))]
          \<and> timers (handleTaskFailure lower task err st) = timers st)"
proof (intro conjI impI)
  from none have n: "\<not> matchesOrphaned lower err" "\<not> matchesRateLimit lower err"
    "\<not> matchesTimeout lower err"
    by simp_all
  show p: "pattern (diagnoseTaskFailure lower task recentRuns err) = Persistent"
    by (rule diagnose_persistent(1) [OF n logged two])
  show "recommendation (diagnoseTaskFailure lower task recentRuns err) = Pause"
    by (rule diagnose_persistent(2) [OF n logged two])
  assume a: "db_tasks st (ident task) = Some row \<and> getRecentTaskRuns (ident task) 10 st = recentRuns"
  then have d: "diagnosisAt lower task err st = diagnoseTaskFailure lower task recentRuns err"
    by (simp add: diagnosisAt_def)
  from a have row: "db_tasks st (ident task) = Some row" by simp
  from p d have p': "pattern (diagnosisAt lower task err st) = Persistent" by simp
  note eq = handle_persistent [OF row p']
  show "map_option status (db_tasks (handleTaskFailure lower task err st) (ident task)) = Some Paused"
    by (simp add: eq)
  show "sent (handleTaskFailure lower task err st) =
              sent st @ [(chat_jid task,
                  formatFailureNotification task (diagnoseTaskFailure lower task recentRuns err) err
                    (ascii ''paused''))]"
    by (simp add: eq d)
  show "timers (handleTaskFailure lower task err st) = timers st" by (simp add: eq)
qed

lemma module_example:
  "\<not> matchesOrphaned asciiLower (ascii ''ModuleNotFoundError: requests'') \<and>
   \<not> matchesRateLimit asciiLower (ascii ''ModuleNotFoundError: requests'') \<and>
   \<not> matchesTimeout asciiLower (ascii ''ModuleNotFoundError: requests'')"
  by (simp add: matchesOrphaned_def matchesRateLimit_def matchesTimeout_def
      asciiLower_def ascii_def)

theorem persistent_failure_pauses_witness:
  "pattern (diagnoseTaskFailure asciiLower exampleTask
      [exampleRun (ascii ''2024-01-01T09:02:00.000Z'') (Some (ascii ''ModuleNotFoundError: requests'')),
       exampleRun (ascii ''2024-01-01T09:01:00.000Z'') (Some (ascii ''modulenotfounderror: Requests  ''))]
      (ascii ''ModuleNotFoundError: requests'')) = Persistent
   \<and> map_option status (db_tasks (handleTaskFailure asciiLower exampleTask
        (ascii ''ModuleNotFoundError: requests'')
        (exampleState exampleTask
          [exampleRun (ascii ''2024-01-01T09:02:00.000Z'') (Some (ascii ''ModuleNotFoundError: requests'')),
           exampleRun (ascii ''2024-01-01T09:01:00.000Z'') (Some (ascii ''modulenotfounderror: Requests  ''))]))
        (ascii ''task-1'')) = Some Paused
   \<and> map fst (sent (handleTaskFailure asciiLower exampleTask
        (ascii ''ModuleNotFoundError: requests'')
        (exampleState exampleTask
          [exampleRun (ascii ''2024-01-01T09:02:00.000Z'') (Some (ascii ''ModuleNotFoundError: requests'')),
           exampleRun (ascii ''2024-01-01T09:01:00.000Z'') (Some (ascii ''modulenotfounderror: Requests  ''))])))
       = [ascii ''group@g.us'']"
proof -
  let ?runs = "[exampleRun (ascii ''2024-01-01T09:02:00.000Z'') (Some (ascii ''ModuleNotFoundError: requests'')),
       exampleRun (ascii ''2024-01-01T09:01:00.000Z'') (Some (ascii ''modulenotfounderror: Requests  ''))]"
  have logged: "\<forall>r \<in> set ?runs. run_status r = loggedStatus (run_error r)"
    by (simp add: exampleRun_def)
  have two: "2 \<le> length (filter (\<lambda>r. run_status r = RunError \<and>
       (case run_error r of
          Some e \<Rightarrow> normalize asciiLower e = normalize asciiLower (ascii ''ModuleNotFoundError: requests'')
        | None \<Rightarrow> False)) ?runs)"
    by (simp add: exampleRun_def loggedStatus_def normalize_def asciiLower_def ascii_def
        trim_def trimStart_def trimEnd_def isWhitespace_def)
  have i: "ident exampleTask = ascii ''task-1''" "chat_jid exampleTask = ascii ''group@g.us''"
    by (simp_all add: exampleTask_def)
  have row: "db_tasks (exampleState exampleTask ?runs) (ident exampleTask) = Some exampleTask"
    by (rule ex_row)
  have rec: "getRecentTaskRuns (ident exampleTask) 10 (exampleState exampleTask ?runs) = ?runs"
    by (simp add: getRecentTaskRuns_def exampleState_def exampleRun_def i)
  from persistent_failure_pauses [OF module_example logged two,
      where task = exampleTask and st = "exampleState exampleTask ?runs" and row = exampleTask]
    row rec
  show ?thesis by (simp add: i exampleState_def)
qed

subsection \<open>Strings and paths\<close>



lemma splitOn_not_Nil [simp]: "splitOn c s \<noteq> []"
  by (induction s) (auto split: list.splits)

lemma splitOn_sep_free: "s \<in> set (splitOn c x) \<Longrightarrow> c \<notin> set s"
  by (induction x arbitrary: s) (auto split: list.splits if_splits)

lemma splitOn_no_sep: "c \<notin> set f \<Longrightarrow> splitOn c f = [f]"
  by (induction f) auto

lemma splitOn_append: "splitOn c (a @ c # b) = splitOn c a @ splitOn c b"
  by (induction a) (auto split: list.splits)

lemma splitOn_Cons_sep: "splitOn c (c # b) = [] # splitOn c b"
  by simp

lemma splitOn_snoc_seg: "c \<notin> set f \<Longrightarrow> splitOn c (a @ c # f) = splitOn c a @ [f]"
  by (simp add: splitOn_append splitOn_no_sep)

lemma joinWith_Cons:
  "joinWith s (x # xs) = x @ concat (map (\<lambda>y. s @ y) xs)"
  by (simp add: joinWith_def)

lemma joinWith_snoc:
  "joinWith s (xs @ [x]) = (if xs = [] then x else joinWith s xs @ s @ x)"
proof (cases xs)
  case Nil
  then show ?thesis by (simp add: joinWith_Cons)
next
  case (Cons a as)
  then show ?thesis by (simp add: joinWith_Cons)
qed

lemma splitOn_concat_segs:
  "\<forall>s \<in> set xs. c \<notin> set s \<Longrightarrow> c \<notin> set x \<Longrightarrow>
   splitOn c (x @ concat (map (\<lambda>y. [c] @ y) xs)) = x # xs"
proof (induction xs arbitrary: x)
  case Nil
  then show ?case by (simp add: splitOn_no_sep)
next
  case (Cons a xs)
  have "splitOn c (x @ c # (a @ concat (map (\<lambda>y. [c] @ y) xs)))
      = splitOn c x @ splitOn c (a @ concat (map (\<lambda>y. [c] @ y) xs))"
    by (rule splitOn_append)
  also have "\<dots> = [x] @ (a # xs)"
    using Cons by (simp add: splitOn_no_sep)
  finally show ?case by simp
qed

lemma splitOn_joinWith:
  assumes "\<forall>s \<in> set xs. c \<notin> set s" and "xs \<noteq> []"
  shows "splitOn c (joinWith [c] xs) = xs"
proof (cases xs)
  case Nil
  with assms show ?thesis by simp
next
  case (Cons a as)
  with assms have "\<forall>s \<in> set as. c \<notin> set s" "c \<notin> set a" by simp_all
  then have "splitOn c (a @ concat (map (\<lambda>y. [c] @ y) as)) = a # as"
    by (rule splitOn_concat_segs)
  then show ?thesis by (simp only: Cons joinWith_Cons)
qed

lemma normStep_proper: "properSeg f \<Longrightarrow> normStep a res f = res @ [f]"
  by (simp add: normStep_def properSeg_def)

lemma normStep_empty [simp]: "normStep a res [] = res"
  by (simp add: normStep_def)

lemma normalizeSegs_snoc:
  "normalizeSegs a (xs @ [s]) = normStep a (normalizeSegs a xs) s"
  by (simp add: normalizeSegs_def)

lemma normStep_set:
  "s \<in> set (normStep a acc x) \<Longrightarrow> s \<in> set acc \<or> (s = x \<and> x \<noteq> [] \<and> x \<noteq> ''.'')"
  unfolding normStep_def by (auto split: if_splits dest: in_set_butlastD)

lemma normStep_False_set:
  "s \<in> set (normStep False acc x) \<Longrightarrow> s \<in> set acc \<or> (s = x \<and> properSeg x)"
  unfolding normStep_def properSeg_def by (auto split: if_splits dest: in_set_butlastD)

lemma foldl_normStep_proper:
  "\<forall>s \<in> set acc. properSeg s \<Longrightarrow> \<forall>s \<in> set (foldl (normStep False) acc xs). properSeg s"
proof (induction xs arbitrary: acc)
  case Nil
  then show ?case by simp
next
  case (Cons x xs)
  have "\<forall>s \<in> set (normStep False acc x). properSeg s"
  proof
    fix s assume "s \<in> set (normStep False acc x)"
    then have "s \<in> set acc \<or> (s = x \<and> properSeg x)" by (rule normStep_False_set)
    then show "properSeg s"
    proof (elim disjE conjE)
      assume "s \<in> set acc"
      with Cons.prems show ?thesis by (rule bspec)
    next
      assume "s = x" "properSeg x"
      then show ?thesis by (simp only:)
    qed
  qed
  from Cons.IH [OF this] show ?case by simp
qed

lemma normalizeSegs_False_proper: "s \<in> set (normalizeSegs False xs) \<Longrightarrow> properSeg s"
  using foldl_normStep_proper [of "[]" xs] by (simp add: normalizeSegs_def)

lemma foldl_normStep_subset:
  "set (foldl (normStep a) acc xs) \<subseteq> set acc \<union> set xs"
proof (induction xs arbitrary: acc)
  case Nil
  then show ?case by simp
next
  case (Cons x xs)
  have "set (normStep a acc x) \<subseteq> set acc \<union> {x}"
  proof
    fix s assume "s \<in> set (normStep a acc x)"
    then have "s \<in> set acc \<or> (s = x \<and> x \<noteq> [] \<and> x \<noteq> ''.'')" by (rule normStep_set)
    then show "s \<in> set acc \<union> {x}" by auto
  qed
  with Cons.IH [of "normStep a acc x"] show ?case by auto
qed

lemma normalizeSegs_subset: "set (normalizeSegs a xs) \<subseteq> set xs"
  using foldl_normStep_subset [of a "[]" xs] by (simp add: normalizeSegs_def)

lemma foldl_normStep_True_nonempty:
  "\<forall>s \<in> set acc. s \<noteq> [] \<and> s \<noteq> ''.'' \<Longrightarrow>
   \<forall>s \<in> set (foldl (normStep True) acc xs). s \<noteq> [] \<and> s \<noteq> ''.''"
proof (induction xs arbitrary: acc)
  case Nil
  then show ?case by simp
next
  case (Cons x xs)
  have "\<forall>s \<in> set (normStep True acc x). s \<noteq> [] \<and> s \<noteq> ''.''"
  proof
    fix s assume "s \<in> set (normStep True acc x)"
    then have "s \<in> set acc \<or> (s = x \<and> x \<noteq> [] \<and> x \<noteq> ''.'')" by (rule normStep_set)
    then show "s \<noteq> [] \<and> s \<noteq> ''.''"
    proof (elim disjE conjE)
      assume "s \<in> set acc"
      with Cons.prems show ?thesis by (rule bspec)
    next
      assume "s = x" "x \<noteq> []" "x \<noteq> ''.''"
      then show ?thesis by (simp only: simp_thms)
    qed
  qed
  from Cons.IH [OF this] show ?case by simp
qed

lemma normalizeSegs_True_nonempty:
  "s \<in> set (normalizeSegs True xs) \<Longrightarrow> s \<noteq> [] \<and> s \<noteq> ''.''"
  using foldl_normStep_True_nonempty [of "[]" xs] by (simp add: normalizeSegs_def)

lemma foldl_normStep_all_proper:
  "\<forall>s \<in> set N. properSeg s \<Longrightarrow> foldl (normStep False) acc N = acc @ N"
  by (induction N arbitrary: acc) (auto simp: normStep_proper)

lemma foldl_False_after_True:
  "foldl (normStep False) acc (normalizeSegs True D) = foldl (normStep False) acc D"
proof (induction D rule: rev_induct)
  case Nil
  then show ?case by (simp add: normalizeSegs_def)
next
  case (snoc s D)
  let ?R = "normalizeSegs True D"
  have step: "normalizeSegs True (D @ [s]) = normStep True ?R s" by (rule normalizeSegs_snoc)
  show ?case
  proof (cases "s = ''..'' \<and> ?R \<noteq> [] \<and> last ?R \<noteq> ''..''")
    case True
    then obtain R' l where R: "?R = R' @ [l]" and l: "l \<noteq> ''..''"
      by (metis append_butlast_last_id)
    have "l \<in> set ?R" using R by simp
    then have "l \<noteq> [] \<and> l \<noteq> ''.''" by (rule normalizeSegs_True_nonempty)
    with l have pl: "properSeg l" by (simp add: properSeg_def)
    have "normStep True ?R s = R'" using True R by (simp add: normStep_def)
    then have lhs: "foldl (normStep False) acc (normalizeSegs True (D @ [s])) = foldl (normStep False) acc R'"
      by (simp add: step)
    have "foldl (normStep False) acc D = foldl (normStep False) acc R' @ [l]"
      using snoc.IH R pl by (simp add: normStep_proper)
    then have "foldl (normStep False) acc (D @ [s]) = foldl (normStep False) acc R'"
      using True l by (simp add: normStep_def)
    with lhs show ?thesis by simp
  next
    case False
    then have "normStep True ?R s = ?R \<or> normStep True ?R s = ?R @ [s]"
      by (auto simp: normStep_def)
    then show ?thesis
    proof
      assume a: "normStep True ?R s = ?R"
      then have "s = [] \<or> s = ''.''" using False by (auto simp: normStep_def split: if_splits)
      then have "normStep False (foldl (normStep False) acc D) s = foldl (normStep False) acc D"
        by (auto simp: normStep_def)
      then show ?thesis using a snoc.IH by (simp add: step)
    next
      assume a: "normStep True ?R s = ?R @ [s]"
      then show ?thesis using snoc.IH by (simp add: step)
    qed
  qed
qed



lemma isAbsolute_Cons: "isAbsolute (c # s) = (c = CHR ''/'')"
  by (simp add: isAbsolute_def)

lemma not_absolute_no_sep: "CHR ''/'' \<notin> set f \<Longrightarrow> \<not> isAbsolute f"
  by (cases f) (auto simp: isAbsolute_def)

lemma joinWith_not_Nil: "xs \<noteq> [] \<Longrightarrow> last xs \<noteq> [] \<Longrightarrow> joinWith s xs \<noteq> []"
  by (cases xs rule: rev_cases) (auto simp: joinWith_snoc)

lemma last_joinWith_snoc: "f \<noteq> [] \<Longrightarrow> last (joinWith s (xs @ [f])) = last f"
  by (simp add: joinWith_snoc)

lemma pathNormalize_snoc:
  assumes f: "properSeg f" and nf: "CHR ''/'' \<notin> set f" and d: "dir \<noteq> []"
  shows "pathNormalize (dir @ ''/'' @ f) =
     (if isAbsolute dir
      then CHR ''/'' # joinWith ''/'' (normalizeSegs False (splitOn (CHR ''/'') dir) @ [f])
      else joinWith ''/'' (normalizeSegs True (splitOn (CHR ''/'') dir) @ [f]))"
proof -
  from f have fne: "f \<noteq> []" by (simp add: properSeg_def)
  let ?p = "dir @ CHR ''/'' # f"
  have ne: "?p \<noteq> []" by simp
  have ab: "isAbsolute ?p = isAbsolute dir" using d by (cases dir) (simp_all add: isAbsolute_def)
  have "last ?p = last f" using fne by simp
  moreover have "last f \<in> set f" using fne by simp
  ultimately have lst: "last ?p \<noteq> CHR ''/''" using nf by metis
  have sp: "splitOn (CHR ''/'') ?p = splitOn (CHR ''/'') dir @ [f]"
    using splitOn_snoc_seg [OF nf, of dir] by simp
  have seg: "normalizeSegs a (splitOn (CHR ''/'') ?p) = normalizeSegs a (splitOn (CHR ''/'') dir) @ [f]" for a
    by (simp only: sp normalizeSegs_snoc normStep_proper [OF f])
  have body: "joinWith ''/'' (normalizeSegs a (splitOn (CHR ''/'') dir) @ [f]) \<noteq> []" for a
    by (rule joinWith_not_Nil) (simp_all add: fne)
  have "pathNormalize ?p =
     (if isAbsolute dir
      then CHR ''/'' # joinWith ''/'' (normalizeSegs False (splitOn (CHR ''/'') dir) @ [f])
      else joinWith ''/'' (normalizeSegs True (splitOn (CHR ''/'') dir) @ [f]))"
    unfolding pathNormalize_def Let_def seg ab
    using ne lst body by (simp del: last_append last_snoc)
  then show ?thesis by simp
qed

lemma pathJoin_file:
  assumes f: "properSeg f" and nf: "CHR ''/'' \<notin> set f"
  shows "pathJoin dir f =
     (if dir = [] then f
      else if isAbsolute dir
      then CHR ''/'' # joinWith ''/'' (normalizeSegs False (splitOn (CHR ''/'') dir) @ [f])
      else joinWith ''/'' (normalizeSegs True (splitOn (CHR ''/'') dir) @ [f]))"
proof (cases "dir = []")
  case True
  from f have fne: "f \<noteq> []" by (simp add: properSeg_def)
  have na: "\<not> isAbsolute f" using nf by (rule not_absolute_no_sep)
  have lst: "last f \<noteq> CHR ''/''" using fne nf by (metis last_in_set)
  have seg: "normalizeSegs True (splitOn (CHR ''/'') f) = [f]"
    by (simp add: splitOn_no_sep [OF nf] normalizeSegs_def normStep_proper [OF f])
  have "pathNormalize f = f"
    unfolding pathNormalize_def Let_def using fne na lst
    by (simp add: seg joinWith_def)
  with True fne show ?thesis by (simp add: pathJoin_def)
next
  case False
  from f have fne: "f \<noteq> []" by (simp add: properSeg_def)
  have "pathJoin dir f = pathNormalize (dir @ ''/'' @ f)"
    using False fne by (simp add: pathJoin_def)
  with pathNormalize_snoc [OF f nf False] False show ?thesis by simp
qed

lemma sep_free_segs: "s \<in> set (normalizeSegs a (splitOn (CHR ''/'') d)) \<Longrightarrow> CHR ''/'' \<notin> set s"
  using normalizeSegs_subset splitOn_sep_free by blast

lemma resolveSegs_join:
  assumes f: "properSeg f" and nf: "CHR ''/'' \<notin> set f"
  shows "resolveSegs wd (pathJoin dir f) = resolveSegs wd dir @ [f]"
proof -
  from f have fne: "f \<noteq> []" by (simp add: properSeg_def)
  consider (empty) "dir = []" | (abs) "dir \<noteq> []" "isAbsolute dir" | (rel) "dir \<noteq> []" "\<not> isAbsolute dir"
    by blast
  then show ?thesis
  proof cases
    case empty
    have na: "\<not> isAbsolute f" using nf by (rule not_absolute_no_sep)
    have a: "resolveSegs wd f = normalizeSegs False (splitOn (CHR ''/'') wd) @ [f]"
      using na splitOn_snoc_seg [OF nf, of wd]
      by (simp add: resolveSegs_def normalizeSegs_snoc normStep_proper [OF f])
    have "splitOn (CHR ''/'') (wd @ ''/'') = splitOn (CHR ''/'') wd @ [[]]"
      using splitOn_append [of "CHR ''/''" wd "[]"] by simp
    then have b: "resolveSegs wd [] = normalizeSegs False (splitOn (CHR ''/'') wd)"
      by (simp add: resolveSegs_def isAbsolute_def normalizeSegs_snoc)
    from empty a b show ?thesis by (simp add: pathJoin_file [OF f nf])
  next
    case abs
    let ?N = "normalizeSegs False (splitOn (CHR ''/'') dir)"
    have pj: "pathJoin dir f = CHR ''/'' # joinWith ''/'' (?N @ [f])"
      using abs by (simp add: pathJoin_file [OF f nf])
    have free: "\<forall>s \<in> set (?N @ [f]). CHR ''/'' \<notin> set s"
      using nf sep_free_segs by auto
    have sp0: "splitOn (CHR ''/'') (joinWith [CHR ''/''] (?N @ [f])) = ?N @ [f]"
      by (rule splitOn_joinWith [OF free]) simp
    then have sp: "splitOn (CHR ''/'') (CHR ''/'' # joinWith ''/'' (?N @ [f])) = [] # (?N @ [f])"
      by simp
    have allp: "\<forall>s \<in> set (?N @ [f]). properSeg s"
      using f normalizeSegs_False_proper by auto
    have "normalizeSegs False ([] # (?N @ [f])) = foldl (normStep False) [] (?N @ [f])"
      by (simp add: normalizeSegs_def)
    also have "\<dots> = ?N @ [f]" using foldl_normStep_all_proper [OF allp, of "[]"] by simp
    finally have "resolveSegs wd (pathJoin dir f) = ?N @ [f]"
      by (simp add: pj resolveSegs_def isAbsolute_def sp0)
    moreover have "resolveSegs wd dir = ?N" using abs by (simp add: resolveSegs_def)
    ultimately show ?thesis by simp
  next
    case rel
    let ?R = "normalizeSegs True (splitOn (CHR ''/'') dir)"
    let ?C = "splitOn (CHR ''/'') wd"
    have pj: "pathJoin dir f = joinWith ''/'' (?R @ [f])"
      using rel by (simp add: pathJoin_file [OF f nf])
    have free: "\<forall>s \<in> set (?R @ [f]). CHR ''/'' \<notin> set s"
      using nf sep_free_segs by auto
    have spj: "splitOn (CHR ''/'') (joinWith [CHR ''/''] (?R @ [f])) = ?R @ [f]"
      by (rule splitOn_joinWith [OF free]) simp
    have hdne: "hd (?R @ [f]) \<noteq> []"
      using fne normalizeSegs_True_nonempty [of _ "splitOn (CHR ''/'') dir"]
      by (cases ?R) auto
    have "\<not> isAbsolute (joinWith ''/'' (?R @ [f]))"
    proof (cases "?R @ [f]")
      case Nil
      then show ?thesis by simp
    next
      case (Cons h t)
      with hdne have hne: "h \<noteq> []" by simp
      from Cons free have "CHR ''/'' \<notin> set h" by (metis list.set_intros(1))
      with hne have "hd h \<noteq> CHR ''/''" by (metis hd_in_set)
      with hne show ?thesis by (cases h) (simp_all add: Cons joinWith_Cons isAbsolute_def)
    qed
    then have "resolveSegs wd (pathJoin dir f) =
        normalizeSegs False (splitOn (CHR ''/'') (wd @ CHR ''/'' # joinWith ''/'' (?R @ [f])))"
      by (simp add: pj resolveSegs_def)
    also have "\<dots> = normalizeSegs False (?C @ (?R @ [f]))"
      using spj by (simp add: splitOn_append)
    also have "\<dots> = foldl (normStep False) (foldl (normStep False) [] ?C) ?R @ [f]"
      by (simp add: normalizeSegs_def normStep_proper [OF f])
    also have "\<dots> = foldl (normStep False) (foldl (normStep False) [] ?C) (splitOn (CHR ''/'') dir) @ [f]"
      by (simp only: foldl_False_after_True)
    also have "\<dots> = normalizeSegs False (?C @ splitOn (CHR ''/'') dir) @ [f]"
      by (simp add: normalizeSegs_def)
    also have "\<dots> = resolveSegs wd dir @ [f]"
      using rel by (simp add: resolveSegs_def splitOn_append)
    finally show ?thesis .
  qed
qed



lemma showNat_digits: "c \<in> set (showNat n) \<Longrightarrow> c \<in> set ''0123456789''"
proof (induction n arbitrary: c rule: showNat.induct)
  case (1 n)
  have d: "digitChar k \<in> set ''0123456789''" if "k < 10" for k
    unfolding digitChar_def using that by (intro nth_mem) simp
  show ?case
  proof (cases "n < 10")
    case True
    with "1.prems" have "c = digitChar n" by (simp add: showNat.simps)
    with d [OF True] show ?thesis by simp
  next
    case False
    with "1.prems" have "c \<in> set (showNat (n div 10)) \<or> c = digitChar (n mod 10)"
      by (subst (asm) showNat.simps) auto
    then show ?thesis
    proof
      assume "c \<in> set (showNat (n div 10))"
      with "1.IH" [OF False] show ?thesis .
    next
      assume "c = digitChar (n mod 10)"
      with d [of "n mod 10"] show ?thesis by simp
    qed
  qed
qed

lemma showNat_no_sep: "CHR ''/'' \<notin> set (showNat n)"
  using showNat_digits [of "CHR ''/''" n] by auto

lemma randomSuffix_no_sep: "CHR ''/'' \<notin> set (randomSuffix ds)"
proof
  assume "CHR ''/'' \<in> set (randomSuffix ds)"
  then obtain d where "CHR ''/'' = ''0123456789abcdefghijklmnopqrstuvwxyz'' ! (d mod 36)"
    by (auto simp: randomSuffix_def)
  moreover have "''0123456789abcdefghijklmnopqrstuvwxyz'' ! (d mod 36)
      \<in> set ''0123456789abcdefghijklmnopqrstuvwxyz''"
    by (intro nth_mem) simp
  ultimately show False by auto
qed

lemma ipcFilename_no_sep: "CHR ''/'' \<notin> set (ipcFilename e @ ext) \<longleftrightarrow> CHR ''/'' \<notin> set ext"
  by (simp add: ipcFilename_def showNat_no_sep randomSuffix_no_sep)

lemma showNat_not_Nil: "showNat n \<noteq> []"
  by (subst showNat.simps) simp

lemma ipcFilename_proper: "properSeg (ipcFilename e @ ext)"
proof -
  have m: "CHR ''-'' \<in> set (ipcFilename e @ ext)" by (simp add: ipcFilename_def)
  have "ipcFilename e @ ext \<noteq> []" using m by auto
  moreover have "ipcFilename e @ ext \<noteq> ''.''"
  proof
    assume "ipcFilename e @ ext = ''.''"
    with m have "CHR ''-'' \<in> set ''.''" by (simp only:)
    then show False by simp
  qed
  moreover have "ipcFilename e @ ext \<noteq> ''..''"
  proof
    assume "ipcFilename e @ ext = ''..''"
    with m have "CHR ''-'' \<in> set ''..''" by (simp only:)
    then show False by simp
  qed
  ultimately show ?thesis unfolding properSeg_def by blast
qed

lemma ipcFilename_proper0: "properSeg (ipcFilename e)"
  using ipcFilename_proper [of e "[]"] by simp

lemma ipcFilename_no_sep0: "CHR ''/'' \<notin> set (ipcFilename e)"
  using ipcFilename_no_sep [of e "[]"] by simp

lemma pathJoin_ext:
  assumes f: "properSeg f" and nf: "CHR ''/'' \<notin> set f"
    and fe: "properSeg (f @ ext)" and nfe: "CHR ''/'' \<notin> set (f @ ext)"
  shows "pathJoin dir f @ ext = pathJoin dir (f @ ext)"
  by (simp add: pathJoin_file [OF f nf] pathJoin_file [OF fe nfe] joinWith_snoc)

lemma putEntry_snoc:
  "putEntry (D @ [n]) c fs = fs(D := (n, c) # filter (\<lambda>e. fst e \<noteq> n) (fs D))"
  by (simp add: putEntry_def)

lemma dropEntry_snoc:
  "dropEntry (D @ [n]) fs = fs(D := filter (\<lambda>e. fst e \<noteq> n) (fs D))"
  by (simp add: dropEntry_def)

lemma getEntry_snoc: "getEntry (D @ [n]) fs = map_of (fs D) n"
  by (simp add: getEntry_def)

lemma locate_snoc: "locate links (D @ [n]) = realpathSegs links [] D @ [n]"
  by (simp add: locate_def)

lemma plugin_write_effect:
  "writeIpcFile_plugin e dir data fs =
     (ipcFilename e,
      fs(realpathSegs (symlinks e) [] (resolveSegs (cwd e) dir) :=
           (ipcFilename e, Json data)
           # filter (\<lambda>x. fst x \<noteq> ipcFilename e \<and> fst x \<noteq> ipcFilename e @ ''.tmp'')
                    (fs (realpathSegs (symlinks e) [] (resolveSegs (cwd e) dir)))))"
proof -
  let ?f = "ipcFilename e" and ?D = "resolveSegs (cwd e) dir"
  have tmp: "pathJoin dir ?f @ ''.tmp'' = pathJoin dir (?f @ ''.tmp'')"
    by (rule pathJoin_ext [OF ipcFilename_proper0 ipcFilename_no_sep0 ipcFilename_proper])
      (simp add: ipcFilename_no_sep0)
  have kf: "resolveSegs (cwd e) (pathJoin dir ?f) = ?D @ [?f]"
    by (rule resolveSegs_join [OF ipcFilename_proper0 ipcFilename_no_sep0])
  have kt: "resolveSegs (cwd e) (pathJoin dir ?f @ ''.tmp'') = ?D @ [?f @ ''.tmp'']"
    unfolding tmp
    by (rule resolveSegs_join [OF ipcFilename_proper]) (simp add: ipcFilename_no_sep0)
  have flt: "(\<lambda>x. fst x \<noteq> ?f @ ''.tmp'' \<and> fst x \<noteq> ?f)
      = (\<lambda>x. fst x \<noteq> ?f \<and> fst x \<noteq> ?f @ ''.tmp'')"
    by (rule ext) (rule conj_commute)
  show ?thesis
    unfolding writeIpcFile_plugin_def Let_def writeFileSync_def renameSync_def kf kt
      locate_snoc putEntry_snoc dropEntry_snoc getEntry_snoc
    by (simp add: flt)
qed





lemma map_of_filter_key:
  "map_of (filter (\<lambda>x. P (fst x)) xs) n = (if P n then map_of xs n else None)"
  by (induction xs) auto

lemma getEntry_after_write:
  "getEntry k (fs(D := (f, c) # filter (\<lambda>x. fst x \<noteq> f \<and> fst x \<noteq> ft) (fs D))) =
     (if k = D @ [f] then Some c else if k = D @ [ft] then None else getEntry k fs)"
proof (cases "k = []")
  case True
  then show ?thesis by (simp add: getEntry_def)
next
  case False
  then have k: "k = butlast k @ [last k]" by simp
  have eq: "k = D @ [n] \<longleftrightarrow> butlast k = D \<and> last k = n" for n
    using k by (metis butlast_snoc last_snoc)
  show ?thesis
    using False map_of_filter_key [of "\<lambda>n. n \<noteq> f \<and> n \<noteq> ft" "fs D" "last k"]
    by (auto simp: getEntry_def eq)
qed

lemma TASKS_DIR_value: "TASKS_DIR = ''/workspace/ipc/tasks''"
  by (simp add: TASKS_DIR_def IPC_DIR_def pathJoin_def pathNormalize_def isAbsolute_def
      normalizeSegs_def normStep_def joinWith_def)

lemma resolve_TASKS_DIR: "resolveSegs wd TASKS_DIR = [''workspace'', ''ipc'', ''tasks'']"
  by (simp add: TASKS_DIR_value resolveSegs_def isAbsolute_def normalizeSegs_def normStep_def)






lemma example_filename: "ipcFilename exampleEnv = ''1700000000000-abc123.json''"
  by (simp add: ipcFilename_def exampleEnv_def randomSuffix_def showNat.simps digitChar_def)



lemma plugin_write_tasks:
  "writeIpcFile_plugin e TASKS_DIR data fs =
     (ipcFilename e,
      fs(realpathSegs (symlinks e) [] [''workspace'', ''ipc'', ''tasks''] :=
           (ipcFilename e, Json data)
           # filter (\<lambda>x. fst x \<noteq> ipcFilename e \<and> fst x \<noteq> ipcFilename e @ ''.tmp'')
                    (fs (realpathSegs (symlinks e) [] [''workspace'', ''ipc'', ''tasks'']))))"
  by (simp only: plugin_write_effect resolve_TASKS_DIR)

text \<open>
  Claim C9. With \<open>isMain\<close> false the \<open>register_group\<close> handler returns a result
  with \<open>isError\<close> set and leaves the file system unchanged; with \<open>isMain\<close> true it
  writes a \<open>register_group\<close> file into the tasks directory (at its canonical place);
  a changed file system implies \<open>isMain\<close>.
\<close>

theorem register_group_main_only:
  "(\<not> isMain ctx \<longrightarrow>
      isError (fst (registerGroupHandler e args ctx fs))
    \<and> snd (registerGroupHandler e args ctx fs) = fs)
   \<and> (isMain ctx \<longrightarrow>
      \<not> isError (fst (registerGroupHandler e args ctx fs))
    \<and> getEntry (realpathSegs (symlinks e) [] [''workspace'', ''ipc'', ''tasks''] @ [ipcFilename e])
         (snd (registerGroupHandler e args ctx fs))
       = Some (Json (JObj [(''type'', JStr ''register_group''), (''jid'', JStr (rg_jid args)),
                          (''name'', JStr (rg_name args)), (''folder'', JStr (rg_folder args)),
                          (''trigger'', JStr (rg_trigger args)), (''timestamp'', JStr (isoNow e))])))
   \<and> (snd (registerGroupHandler e args ctx fs) \<noteq> fs \<longrightarrow> isMain ctx)"
proof (intro conjI impI)
  assume "\<not> isMain ctx"
  then show "isError (fst (registerGroupHandler e args ctx fs))"
    and "snd (registerGroupHandler e args ctx fs) = fs"
    by (simp_all add: registerGroupHandler_def)
next
  assume m: "isMain ctx"
  then show "\<not> isError (fst (registerGroupHandler e args ctx fs))"
    by (simp add: registerGroupHandler_def plugin_write_tasks)
  from m show "getEntry (realpathSegs (symlinks e) [] [''workspace'', ''ipc'', ''tasks''] @ [ipcFilename e])
         (snd (registerGroupHandler e args ctx fs))
       = Some (Json (JObj [(''type'', JStr ''register_group''), (''jid'', JStr (rg_jid args)),
                          (''name'', JStr (rg_name args)), (''folder'', JStr (rg_folder args)),
                          (''trigger'', JStr (rg_trigger args)), (''timestamp'', JStr (isoNow e))]))"
    by (simp add: registerGroupHandler_def plugin_write_tasks getEntry_snoc)
next
  assume "snd (registerGroupHandler e args ctx fs) \<noteq> fs"
  then show "isMain ctx" by (auto simp: registerGroupHandler_def split: if_splits)
qed

theorem register_group_main_only_witness:
  "isError (fst (registerGroupHandler exampleEnv
      \<lparr>rg_jid = ''120363336345536173@g.us'', rg_name = ''Family'', rg_folder = ''family'',
       rg_trigger = ''@Andy''\<rparr>
      \<lparr>chatJid = ''other@g.us'', groupFolder = ''other'', isMain = False\<rparr> (\<lambda>_. [])))
   \<and> snd (registerGroupHandler exampleEnv
      \<lparr>rg_jid = ''120363336345536173@g.us'', rg_name = ''Family'', rg_folder = ''family'',
       rg_trigger = ''@Andy''\<rparr>
      \<lparr>chatJid = ''other@g.us'', groupFolder = ''other'', isMain = False\<rparr> (\<lambda>_. [])) = (\<lambda>_. [])
   \<and> getEntry [''workspace'', ''ipc'', ''tasks'', ''1700000000000-abc123.json'']
       (snd (registerGroupHandler exampleEnv
      \<lparr>rg_jid = ''120363336345536173@g.us'', rg_name = ''Family'', rg_folder = ''family'',
       rg_trigger = ''@Andy''\<rparr>
      \<lparr>chatJid = ''main@g.us'', groupFolder = ''main'', isMain = True\<rparr> (\<lambda>_. [])))
     = Some (Json (JObj [(''type'', JStr ''register_group''),
                        (''jid'', JStr ''120363336345536173@g.us''),
                        (''name'', JStr ''Family''), (''folder'', JStr ''family''),
                        (''trigger'', JStr ''@Andy''),
                        (''timestamp'', JStr ''2023-11-14T22:13:20.000Z'')]))"
proof -
  let ?args = "\<lparr>rg_jid = ''120363336345536173@g.us'', rg_name = ''Family'', rg_folder = ''family'',
       rg_trigger = ''@Andy''\<rparr>"
  let ?other = "\<lparr>chatJid = ''other@g.us'', groupFolder = ''other'', isMain = False\<rparr>"
  let ?main = "\<lparr>chatJid = ''main@g.us'', groupFolder = ''main'', isMain = True\<rparr>"
  have iso: "isoNow exampleEnv = ''2023-11-14T22:13:20.000Z''" "symlinks exampleEnv = []"
    by (simp_all add: exampleEnv_def)
  from register_group_main_only [of ?other exampleEnv ?args "\<lambda>_. []"]
    register_group_main_only [of ?main exampleEnv ?args "\<lambda>_. []"]
  show ?thesis by (simp add: example_filename iso)
qed

lemma schedule_written:
  assumes ch: "getEntry k (snd (scheduleTaskHandler e args ctx fs)) \<noteq> getEntry k fs"
    and js: "getEntry k (snd (scheduleTaskHandler e args ctx fs)) = Some (Json j)"
    and nm: "\<not> isMain ctx"
  shows "property j ''targetJid'' = Some (JStr (chatJid ctx))"
proof -
  define obj where "obj =
    JObj [(''type'', JStr ''schedule_task''), (''prompt'', JStr (st_prompt args)),
          (''schedule_type'', JStr (st_schedule_type args)),
          (''schedule_value'', JStr (st_schedule_value args)),
          (''context_mode'',
             JStr (case st_context_mode args of
                     Some m \<Rightarrow> (if m = [] then ''group'' else m)
                   | None \<Rightarrow> ''group'')),
          (''targetJid'', JStr (chatJid ctx)),
          (''createdBy'', JStr (groupFolder ctx)),
          (''timestamp'', JStr (isoNow e))]"
  have tj: "(case st_target_group_jid args of
                  Some t \<Rightarrow> (if isMain ctx \<and> t \<noteq> [] then t else chatJid ctx)
                | None \<Rightarrow> chatJid ctx) = chatJid ctx"
    using nm by (simp split: option.splits)
  have two: "snd (scheduleTaskHandler e args ctx fs) = fs
      \<or> snd (scheduleTaskHandler e args ctx fs) = snd (writeIpcFile_plugin e TASKS_DIR obj fs)"
    unfolding scheduleTaskHandler_def Let_def tj obj_def
    by (simp add: case_prod_beta)
  with ch have w: "snd (scheduleTaskHandler e args ctx fs) = snd (writeIpcFile_plugin e TASKS_DIR obj fs)"
    by auto
  have "getEntry k (snd (writeIpcFile_plugin e TASKS_DIR obj fs)) \<noteq> getEntry k fs"
    using ch unfolding w .
  then have "getEntry k (snd (writeIpcFile_plugin e TASKS_DIR obj fs)) = Some (Json obj)
      \<or> getEntry k (snd (writeIpcFile_plugin e TASKS_DIR obj fs)) = None"
    unfolding plugin_write_tasks snd_conv getEntry_after_write by (simp split: if_splits)
  with js have "j = obj" unfolding w by simp
  then show ?thesis by (simp add: obj_def)
qed

text \<open>
  Claim C8. With \<open>isMain\<close> false, the result and the file system after the
  \<open>schedule_task\<close> handler do not depend on \<open>target_group_jid\<close>, and every JSON
  file the handler writes has \<open>targetJid\<close> equal to \<open>ctx.chatJid\<close>.
\<close>

theorem schedule_task_target_outside_main:
  assumes "\<not> isMain ctx"
  shows "scheduleTaskHandler e (args\<lparr>st_target_group_jid := ta\<rparr>) ctx fs
           = scheduleTaskHandler e (args\<lparr>st_target_group_jid := tb\<rparr>) ctx fs
       \<and> (\<forall>k j. getEntry k (snd (scheduleTaskHandler e args ctx fs)) \<noteq> getEntry k fs
                \<and> getEntry k (snd (scheduleTaskHandler e args ctx fs)) = Some (Json j)
              \<longrightarrow> property j ''targetJid'' = Some (JStr (chatJid ctx)))"
proof (intro conjI allI impI)
  show "scheduleTaskHandler e (args\<lparr>st_target_group_jid := ta\<rparr>) ctx fs
           = scheduleTaskHandler e (args\<lparr>st_target_group_jid := tb\<rparr>) ctx fs"
    using assms by (simp add: scheduleTaskHandler_def Let_def split: option.splits)
next
  fix k j
  assume "getEntry k (snd (scheduleTaskHandler e args ctx fs)) \<noteq> getEntry k fs
                \<and> getEntry k (snd (scheduleTaskHandler e args ctx fs)) = Some (Json j)"
  with assms show "property j ''targetJid'' = Some (JStr (chatJid ctx))"
    using schedule_written by blast
qed

theorem schedule_task_target_outside_main_witness:
  "getEntry [''workspace'', ''ipc'', ''tasks'', ''1700000000000-abc123.json'']
     (snd (scheduleTaskHandler exampleEnv
        \<lparr>st_prompt = ''Check Wetter'', st_schedule_type = ''cron'',
         st_schedule_value = ''0 9 * * *'', st_context_mode = None,
         st_target_group_jid = Some ''victim@g.us''\<rparr>
        \<lparr>chatJid = ''other@g.us'', groupFolder = ''other'', isMain = False\<rparr> (\<lambda>_. [])))
   = Some (Json (JObj [(''type'', JStr ''schedule_task''), (''prompt'', JStr ''Check Wetter''),
                      (''schedule_type'', JStr ''cron''), (''schedule_value'', JStr ''0 9 * * *''),
                      (''context_mode'', JStr ''group''), (''targetJid'', JStr ''other@g.us''),
                      (''createdBy'', JStr ''other''),
                      (''timestamp'', JStr ''2023-11-14T22:13:20.000Z'')]))
   \<and> scheduleTaskHandler exampleEnv
        \<lparr>st_prompt = ''Check Wetter'', st_schedule_type = ''cron'',
         st_schedule_value = ''0 9 * * *'', st_context_mode = None,
         st_target_group_jid = Some ''victim@g.us''\<rparr>
        \<lparr>chatJid = ''other@g.us'', groupFolder = ''other'', isMain = False\<rparr> (\<lambda>_. [])
     = scheduleTaskHandler exampleEnv
        \<lparr>st_prompt = ''Check Wetter'', st_schedule_type = ''cron'',
         st_schedule_value = ''0 9 * * *'', st_context_mode = None,
         st_target_group_jid = None\<rparr>
        \<lparr>chatJid = ''other@g.us'', groupFolder = ''other'', isMain = False\<rparr> (\<lambda>_. [])"
proof -
  let ?args = "\<lparr>st_prompt = ''Check Wetter'', st_schedule_type = ''cron'',
         st_schedule_value = ''0 9 * * *'', st_context_mode = None,
         st_target_group_jid = Some ''victim@g.us''\<rparr>"
  let ?ctx = "\<lparr>chatJid = ''other@g.us'', groupFolder = ''other'', isMain = False\<rparr>"
  have nm: "\<not> isMain ?ctx" by simp
  have ev: "cronParses exampleEnv ''0 9 * * *''" "isoNow exampleEnv = ''2023-11-14T22:13:20.000Z''"
    "symlinks exampleEnv = []"
    by (simp_all add: exampleEnv_def)
  have w: "getEntry [''workspace'', ''ipc'', ''tasks'', ''1700000000000-abc123.json'']
     (snd (scheduleTaskHandler exampleEnv ?args ?ctx (\<lambda>_. [])))
   = Some (Json (JObj [(''type'', JStr ''schedule_task''), (''prompt'', JStr ''Check Wetter''),
                      (''schedule_type'', JStr ''cron''), (''schedule_value'', JStr ''0 9 * * *''),
                      (''context_mode'', JStr ''group''), (''targetJid'', JStr ''other@g.us''),
                      (''createdBy'', JStr ''other''),
                      (''timestamp'', JStr ''2023-11-14T22:13:20.000Z'')]))"
    by (simp add: scheduleTaskHandler_def Let_def plugin_write_tasks ev example_filename getEntry_def)
  from schedule_task_target_outside_main [OF nm, where e = exampleEnv and args = ?args
        and ta = "Some ''victim@g.us''" and tb = None and fs = "\<lambda>_. []"]
  have "scheduleTaskHandler exampleEnv ?args ?ctx (\<lambda>_. [])
      = scheduleTaskHandler exampleEnv (?args\<lparr>st_target_group_jid := None\<rparr>) ?ctx (\<lambda>_. [])"
    by simp
  with w show ?thesis by simp
qed


subsection \<open>Discord message splitting\<close>







lemma last_filter_snoc: "P y \<Longrightarrow> last (filter P (ys @ [y])) = y"
  by simp




end
